(* ===== verification/Gateway_Prelude.thy ===== *)
theory Gateway_Prelude
  imports Main "HOL-Library.Sublist" "HOL-Library.Code_Target_Nat"
begin

text \<open>
  What the components share: the fact collections the proofs simplify with, results as sums
  (\<open>Inl\<close> the error, \<open>Inr\<close> the value) with their sequencing, reachability of a transition
  system and the locale that turns an inductive invariant into a fact about every reachable
  state, and a few lemmas on lists and finite maps.
\<close>

section \<open>Collections\<close>

named_theorems text_simps \<open>evaluation of the string operations of the Go library\<close>
named_theorems conn_simps \<open>classification of connection errors\<close>
named_theorems result_defs \<open>the loop results of a session\<close>
named_theorems world_simps \<open>reads of the session world after an update\<close>

section \<open>Results\<close>

type_synonym ('e, 'a) result = "'e + 'a"

abbreviation Err :: "'e \<Rightarrow> ('e, 'a) result" where
  "Err \<equiv> Inl"

abbreviation Ok :: "'a \<Rightarrow> ('e, 'a) result" where
  "Ok \<equiv> Inr"

fun and_then :: "('e, 'a) result \<Rightarrow> ('a \<Rightarrow> ('e, 'b) result) \<Rightarrow> ('e, 'b) result" where
  "and_then (Inl e) f = Inl e"
| "and_then (Inr x) f = f x"

fun is_ok :: "('e, 'a) result \<Rightarrow> bool" where
  "is_ok (Inl e) = False"
| "is_ok (Inr x) = True"

lemma and_then_Inr: "and_then m f = Inr y \<longleftrightarrow> (\<exists>x. m = Inr x \<and> f x = Inr y)"
  by (cases m) auto

lemma and_then_Inl:
  "and_then m f = Inl e \<longleftrightarrow> m = Inl e \<or> (\<exists>x. m = Inr x \<and> f x = Inl e)"
  by (cases m) auto

lemma is_ok_iff: "is_ok m \<longleftrightarrow> (\<exists>x. m = Inr x)"
  by (cases m) auto

text \<open>A check of the code: an early return of the error when the guard holds.\<close>

definition fail_if :: "bool \<Rightarrow> 'e \<Rightarrow> ('e, unit) result" where
  "fail_if b e = (if b then Inl e else Inr ())"

lemma fail_if_Inr [simp]: "fail_if b e = Inr u \<longleftrightarrow> \<not> b"
  by (simp add: fail_if_def)

lemma fail_if_Inl [simp]: "fail_if b e = Inl e' \<longleftrightarrow> b \<and> e = e'"
  by (auto simp: fail_if_def)

section \<open>Reachable states and invariants\<close>

inductive reachable_from :: "('s \<Rightarrow> bool) \<Rightarrow> ('s \<Rightarrow> 's \<Rightarrow> bool) \<Rightarrow> 's \<Rightarrow> bool"
  for initial :: "'s \<Rightarrow> bool" and step :: "'s \<Rightarrow> 's \<Rightarrow> bool" where
  reachable_initial: "initial s \<Longrightarrow> reachable_from initial step s"
| reachable_step: "reachable_from initial step s \<Longrightarrow> step s t \<Longrightarrow> reachable_from initial step t"

locale invariant_system =
  fixes initial :: "'s \<Rightarrow> bool"
    and step :: "'s \<Rightarrow> 's \<Rightarrow> bool"
    and inv :: "'s \<Rightarrow> bool"
  assumes inv_initial: "initial s \<Longrightarrow> inv s"
    and inv_step: "inv s \<Longrightarrow> step s t \<Longrightarrow> inv t"
begin

lemma inv_reachable: "reachable_from initial step s \<Longrightarrow> inv s"
  by (induction rule: reachable_from.induct) (auto intro: inv_initial inv_step)

lemma inv_from: "inv s \<Longrightarrow> step\<^sup>*\<^sup>* s t \<Longrightarrow> inv t"
  by (rotate_tac 1, induction rule: rtranclp_induct) (auto intro: inv_step)

end

section \<open>Lists and maps\<close>

lemma length_drop_less: "0 < n \<Longrightarrow> xs \<noteq> [] \<Longrightarrow> length (drop n xs) < length xs"
  by (cases xs) auto

lemma card_dom_upd_le:
  assumes "finite (dom m)"
  shows "card (dom (m(k \<mapsto> v))) \<le> Suc (card (dom m))"
  using card_insert_le_m1 [of "Suc (card (dom m))" "dom m" k] assms by simp

lemma card_dom_del_le:
  assumes "finite (dom m)"
  shows "card (dom (m(k := None))) \<le> card (dom m)"
  using assms by (simp add: card_Diff1_le)

lemma filter_snoc: "filter P (xs @ [x]) = (if P x then filter P xs @ [x] else filter P xs)"
  by simp

end
