(* ===== verification/Go_Text.thy ===== *)
theory Go_Text
  imports Gateway_Prelude
begin

text \<open>
  What the gateway uses of Go's \<^verbatim>\<open>strings\<close>, \<^verbatim>\<open>unicode\<close> and \<^verbatim>\<open>unicode/utf8\<close>
  packages. A Go string or byte slice is a sequence of bytes, modelled as \<open>string\<close>: a
  \<open>char\<close> is one byte, read as a number by \<open>byte\<close>. Runes are natural numbers.
  The laws the components rely on (trimming is idempotent, what trimming removes, what a
  decoded rune says of the bytes) are at the end, with the locale \<open>trimmer\<close> for them.
\<close>

section \<open>Bytes\<close>

abbreviation byte :: "char \<Rightarrow> nat" where
  "byte c \<equiv> of_char c"

abbreviation chr :: "nat \<Rightarrow> char" where
  "chr n \<equiv> char_of n"

lemma byte_less [simp]: "byte c < 256"
  by simp

lemma chr_byte [simp]: "chr (byte c) = c"
  by simp

lemma byte_chr: "n < 256 \<Longrightarrow> byte (chr n) = n"
  by simp

section \<open>UTF-8: \<open>utf8.DecodeRune\<close>, \<open>utf8.DecodeLastRune\<close>, \<open>utf8.AppendRune\<close>, \<open>utf8.Valid\<close>\<close>

definition rune_error :: nat where
  "rune_error = 0xFFFD"

definition rune_start :: "nat \<Rightarrow> bool" where
  "rune_start b \<longleftrightarrow> \<not> (0x80 \<le> b \<and> b \<le> 0xBF)"

definition cont_byte :: "nat \<Rightarrow> bool" where
  "cont_byte b \<longleftrightarrow> 0x80 \<le> b \<and> b \<le> 0xBF"

text \<open>The range of the second byte, by the first one (the \<^verbatim>\<open>acceptRanges\<close> table).\<close>

definition accept_second :: "nat \<Rightarrow> nat \<Rightarrow> bool" where
  "accept_second b0 b1 \<longleftrightarrow>
     (if b0 = 0xE0 then 0xA0 \<le> b1 \<and> b1 \<le> 0xBF
      else if b0 = 0xED then 0x80 \<le> b1 \<and> b1 \<le> 0x9F
      else if b0 = 0xF0 then 0x90 \<le> b1 \<and> b1 \<le> 0xBF
      else if b0 = 0xF4 then 0x80 \<le> b1 \<and> b1 \<le> 0x8F
      else cont_byte b1)"

definition decode2 :: "nat \<Rightarrow> string \<Rightarrow> nat option" where
  "decode2 b0 cs =
     (case cs of
        c1 # _ \<Rightarrow>
          (if accept_second b0 (byte c1)
           then Some ((b0 - 0xC0) * 64 + (byte c1 - 0x80)) else None)
      | _ \<Rightarrow> None)"

definition decode3 :: "nat \<Rightarrow> string \<Rightarrow> nat option" where
  "decode3 b0 cs =
     (case cs of
        c1 # c2 # _ \<Rightarrow>
          (if accept_second b0 (byte c1) \<and> cont_byte (byte c2)
           then Some ((b0 - 0xE0) * 4096 + (byte c1 - 0x80) * 64 + (byte c2 - 0x80)) else None)
      | _ \<Rightarrow> None)"

definition decode4 :: "nat \<Rightarrow> string \<Rightarrow> nat option" where
  "decode4 b0 cs =
     (case cs of
        c1 # c2 # c3 # _ \<Rightarrow>
          (if accept_second b0 (byte c1) \<and> cont_byte (byte c2) \<and> cont_byte (byte c3)
           then Some ((b0 - 0xF0) * 262144 + (byte c1 - 0x80) * 4096 + (byte c2 - 0x80) * 64
                      + (byte c3 - 0x80)) else None)
      | _ \<Rightarrow> None)"

definition or_error :: "nat \<Rightarrow> nat option \<Rightarrow> nat \<times> nat" where
  "or_error n r = (case r of None \<Rightarrow> (rune_error, 1) | Some x \<Rightarrow> (x, n))"

fun decode_rune :: "string \<Rightarrow> nat \<times> nat" where
  "decode_rune [] = (rune_error, 0)"
| "decode_rune (c0 # cs) =
     (let b0 = byte c0 in
      if b0 < 0x80 then (b0, 1)
      else if 0xC2 \<le> b0 \<and> b0 \<le> 0xDF then or_error 2 (decode2 b0 cs)
      else if 0xE0 \<le> b0 \<and> b0 \<le> 0xEF then or_error 3 (decode3 b0 cs)
      else if 0xF0 \<le> b0 \<and> b0 \<le> 0xF4 then or_error 4 (decode4 b0 cs)
      else (rune_error, 1))"

lemma decode2_append: "decode2 b0 cs = Some r \<Longrightarrow> decode2 b0 (cs @ u) = Some r"
  unfolding decode2_def by (simp split: list.split_asm if_split_asm)

lemma decode2_length: "decode2 b0 cs = Some r \<Longrightarrow> 1 \<le> length cs"
  unfolding decode2_def by (simp split: list.split_asm if_split_asm)

lemma decode3_append: "decode3 b0 cs = Some r \<Longrightarrow> decode3 b0 (cs @ u) = Some r"
  unfolding decode3_def by (simp split: list.split_asm if_split_asm)

lemma decode3_length: "decode3 b0 cs = Some r \<Longrightarrow> 2 \<le> length cs"
  unfolding decode3_def by (simp split: list.split_asm if_split_asm)

lemma decode4_append: "decode4 b0 cs = Some r \<Longrightarrow> decode4 b0 (cs @ u) = Some r"
  unfolding decode4_def by (simp split: list.split_asm if_split_asm)

lemma decode4_length: "decode4 b0 cs = Some r \<Longrightarrow> 3 \<le> length cs"
  unfolding decode4_def by (simp split: list.split_asm if_split_asm)

lemma decode2_take: "decode2 b0 cs = Some r \<Longrightarrow> decode2 b0 (take 1 cs) = Some r"
  unfolding decode2_def by (simp add: eval_nat_numeral split: list.split_asm if_split_asm)

lemma decode3_take: "decode3 b0 cs = Some r \<Longrightarrow> decode3 b0 (take 2 cs) = Some r"
  unfolding decode3_def by (simp add: eval_nat_numeral split: list.split_asm if_split_asm)

lemma decode4_take: "decode4 b0 cs = Some r \<Longrightarrow> decode4 b0 (take 3 cs) = Some r"
  unfolding decode4_def by (simp add: eval_nat_numeral split: list.split_asm if_split_asm)

lemmas decode_take = decode2_take decode3_take decode4_take

lemmas decode_append = decode2_append decode3_append decode4_append

lemmas decode_length = decode2_length decode3_length decode4_length

definition encode_rune :: "nat \<Rightarrow> string" where
  "encode_rune r =
     (if r < 0x80 then [chr r]
      else if r < 0x800 then [chr (0xC0 + r div 64), chr (0x80 + r mod 64)]
      else if 0x10FFFF < r \<or> (0xD800 \<le> r \<and> r \<le> 0xDFFF)
        then [chr 0xEF, chr 0xBF, chr 0xBD]
      else if r < 0x10000 then
        [chr (0xE0 + r div 4096), chr (0x80 + r div 64 mod 64), chr (0x80 + r mod 64)]
      else
        [chr (0xF0 + r div 262144), chr (0x80 + r div 4096 mod 64),
         chr (0x80 + r div 64 mod 64), chr (0x80 + r mod 64)])"

text \<open>The head of the string is an ill-formed sequence: \<open>DecodeRune\<close> returned width 1.\<close>

definition bad_head :: "string \<Rightarrow> bool" where
  "bad_head s \<longleftrightarrow> decode_rune s = (rune_error, 1)"

lemma decode_rune_width: "s \<noteq> [] \<Longrightarrow> 0 < snd (decode_rune s) \<and> snd (decode_rune s) \<le> length s"
  by (cases s) (auto simp: Let_def or_error_def dest!: decode_length split: option.splits)

lemma decode_rune_width_pos [simp]: "s \<noteq> [] \<Longrightarrow> 0 < snd (decode_rune s)"
  using decode_rune_width by blast

lemma decode2_bound: "decode2 b0 cs = Some r \<Longrightarrow> b0 \<le> 0xDF \<Longrightarrow> r < 0x800"
  unfolding decode2_def
  by (auto simp: accept_second_def cont_byte_def split: list.split_asm if_split_asm)

lemma decode4_bound:
  assumes "decode4 b0 cs = Some r" and "0xF0 \<le> b0"
  shows "0x10000 \<le> r"
proof -
  obtain c1 c2 c3 u where cs: "cs = c1 # c2 # c3 # u" and acc: "accept_second b0 (byte c1)"
    and r: "r = (b0 - 0xF0) * 262144 + (byte c1 - 0x80) * 4096 + (byte c2 - 0x80) * 64 + (byte c3 - 0x80)"
    using assms(1) by (auto simp: decode4_def split: list.split_asm if_split_asm)
  show ?thesis
  proof (cases "b0 = 0xF0")
    case True
    with acc have "0x90 \<le> byte c1" by (simp add: accept_second_def)
    then have "0x10 * 4096 \<le> (byte c1 - 0x80) * 4096" by simp
    then show ?thesis unfolding r by linarith
  next
    case False
    with assms(2) have "1 * 262144 \<le> (b0 - 0xF0) * 262144" by simp
    then show ?thesis unfolding r by linarith
  qed
qed

lemma drop_rune_less: "s \<noteq> [] \<Longrightarrow> length (drop (snd (decode_rune s)) s) < length s"
  by (intro length_drop_less) simp_all

function utf8_valid :: "string \<Rightarrow> bool" where
  "utf8_valid s =
     (if s = [] then True
      else if bad_head s then False
      else utf8_valid (drop (snd (decode_rune s)) s))"
  by pat_completeness auto
termination
  by (relation "measure length") (auto intro: length_drop_less)

declare utf8_valid.simps [simp del]

lemma utf8_valid_Nil [simp]: "utf8_valid []"
  by (simp add: utf8_valid.simps)

definition decode_last_rune :: "string \<Rightarrow> nat \<times> nat" where
  "decode_last_rune s =
     (if s = [] then (rune_error, 0)
      else if byte (last s) < 0x80 then (byte (last s), 1)
      else case find (\<lambda>k. k \<le> length s \<and> rune_start (byte (s ! (length s - k)))) [2, 3, 4] of
             None \<Rightarrow> (rune_error, 1)
           | Some k \<Rightarrow>
               (let (r, n) = decode_rune (drop (length s - k) s)
                in if n = k then (r, n) else (rune_error, 1)))"

section \<open>\<open>strings.TrimSpace\<close>\<close>

text \<open>\<^verbatim>\<open>unicode.IsSpace\<close>: the Latin-1 spaces and the code points of category White_Space.\<close>

definition is_space :: "nat \<Rightarrow> bool" where
  "is_space r \<longleftrightarrow>
     (0x09 \<le> r \<and> r \<le> 0x0D) \<or> r = 0x20 \<or> r = 0x85 \<or> r = 0xA0 \<or> r = 0x1680
     \<or> (0x2000 \<le> r \<and> r \<le> 0x200A) \<or> r = 0x2028 \<or> r = 0x2029 \<or> r = 0x202F
     \<or> r = 0x205F \<or> r = 0x3000"

function trim_left :: "string \<Rightarrow> string" where
  "trim_left s =
     (if s \<noteq> [] \<and> is_space (fst (decode_rune s))
      then trim_left (drop (snd (decode_rune s)) s) else s)"
  by pat_completeness auto
termination
  by (relation "measure length") (auto intro: length_drop_less)

lemma decode_last_rune_width:
  "s \<noteq> [] \<Longrightarrow> 0 < snd (decode_last_rune s) \<and> snd (decode_last_rune s) \<le> length s"
proof -
  assume s: "s \<noteq> []"
  show ?thesis
  proof (cases "find (\<lambda>k. k \<le> length s \<and> rune_start (byte (s ! (length s - k)))) [2, 3, 4]")
    case None
    with s show ?thesis by (cases s) (auto simp: decode_last_rune_def)
  next
    case (Some k)
    then have "k \<le> length s" and "0 < k"
      by (auto split: if_splits)
    with Some s show ?thesis
      by (cases s) (auto simp: decode_last_rune_def split: prod.splits)
  qed
qed

function trim_right :: "string \<Rightarrow> string" where
  "trim_right s =
     (if s \<noteq> [] \<and> is_space (fst (decode_last_rune s))
      then trim_right (take (length s - snd (decode_last_rune s)) s) else s)"
  by pat_completeness auto
termination
  by (relation "measure length") (use decode_last_rune_width in fastforce)+

declare trim_left.simps [simp del] trim_right.simps [simp del]

definition trim_space :: "string \<Rightarrow> string" where
  "trim_space s = trim_right (trim_left s)"


lemma decode_rune_append:
  assumes "s \<noteq> []" and "\<not> bad_head s"
  shows "decode_rune (s @ u) = decode_rune s"
  using assms
  by (cases s)
    (auto simp: bad_head_def Let_def or_error_def split: option.split_asm if_split_asm
       dest: decode_append [of _ _ _ u])

lemma decode_rune_take:
  assumes "s \<noteq> []" and "\<not> bad_head s"
  shows "decode_rune (take (snd (decode_rune s)) s) = decode_rune s"
  using assms
  by (cases s)
    (auto simp: bad_head_def Let_def or_error_def split: option.split_asm if_split_asm
       dest: decode_take)

lemma decode_rune_take_append:
  assumes "s \<noteq> []" and "\<not> bad_head s"
  shows "decode_rune (take (snd (decode_rune s)) s @ u) = decode_rune s"
    and "\<not> bad_head (take (snd (decode_rune s)) s @ u)"
proof -
  let ?h = "take (snd (decode_rune s)) s"
  have eq: "decode_rune ?h = decode_rune s" using assms by (rule decode_rune_take)
  have h: "?h \<noteq> []" "\<not> bad_head ?h"
    using assms eq decode_rune_width_pos [OF assms(1)] by (auto simp: bad_head_def)
  then show "decode_rune (?h @ u) = decode_rune s" by (simp add: decode_rune_append eq)
  then show "\<not> bad_head (?h @ u)" using assms(2) by (simp add: bad_head_def)
qed

lemma space_not_bad: "is_space (fst (decode_rune s)) \<Longrightarrow> \<not> bad_head s"
  by (auto simp: bad_head_def rune_error_def is_space_def)

lemma trim_left_head: "trim_left s = [] \<or> \<not> is_space (fst (decode_rune (trim_left s)))"
proof (induction s rule: trim_left.induct)
  case (1 s)
  then show ?case by (cases "s \<noteq> [] \<and> is_space (fst (decode_rune s))") (auto simp: trim_left.simps [of s])
qed

lemma trim_left_id: "s = [] \<or> \<not> is_space (fst (decode_rune s)) \<Longrightarrow> trim_left s = s"
  by (auto simp: trim_left.simps [of s])

lemma trim_right_last: "trim_right s = [] \<or> \<not> is_space (fst (decode_last_rune (trim_right s)))"
proof (induction s rule: trim_right.induct)
  case (1 s)
  then show ?case
    by (cases "s \<noteq> [] \<and> is_space (fst (decode_last_rune s))") (auto simp: trim_right.simps [of s])
qed

lemma trim_right_id: "s = [] \<or> \<not> is_space (fst (decode_last_rune s)) \<Longrightarrow> trim_right s = s"
  by (auto simp: trim_right.simps [of s])

lemma prefix_trim_right: "prefix (trim_right s) s"
proof (induction s rule: trim_right.induct)
  case (1 s)
  then show ?case
    by (cases "s \<noteq> [] \<and> is_space (fst (decode_last_rune s))")
      (auto simp: trim_right.simps [of s] intro: prefix_order.trans take_is_prefix)
qed

lemma suffix_trim_left: "suffix (trim_left s) s"
proof (induction s rule: trim_left.induct)
  case (1 s)
  then show ?case
    by (cases "s \<noteq> [] \<and> is_space (fst (decode_rune s))")
      (auto simp: trim_left.simps [of s] intro: suffix_order.trans suffix_drop)
qed

lemma trim_left_trim_space: "trim_left (trim_space s) = trim_space s"
proof (rule trim_left_id, rule ccontr)
  let ?t = "trim_left s" and ?p = "trim_space s"
  assume neg: "\<not> (?p = [] \<or> \<not> is_space (fst (decode_rune ?p)))"
  obtain u where t: "?t = ?p @ u"
    using prefix_trim_right [of ?t] by (auto simp: trim_space_def prefix_def)
  from neg have "is_space (fst (decode_rune ?t))"
    unfolding t by (simp add: decode_rune_append space_not_bad)
  with trim_left_head [of s] t neg show False by auto
qed

lemma trim_space_idem [simp]: "trim_space (trim_space s) = trim_space s"
proof -
  have "trim_right (trim_space s) = trim_space s"
    using trim_right_last [of "trim_left s"] by (intro trim_right_id) (simp add: trim_space_def)
  then show ?thesis
    by (subst trim_space_def) (simp add: trim_left_trim_space)
qed

lemma trim_space_Nil [simp]: "trim_space [] = []"
  by (simp add: trim_space_def trim_left.simps trim_right.simps)

lemma length_trim_space: "length (trim_space s) \<le> length s"
proof -
  have "length (trim_right (trim_left s)) \<le> length (trim_left s)"
    by (rule prefix_length_le [OF prefix_trim_right])
  also have "\<dots> \<le> length s"
    by (rule suffix_length_le [OF suffix_trim_left])
  finally show ?thesis by (simp add: trim_space_def)
qed

text \<open>A text that is not blank and does not begin or end with white space is kept.\<close>

definition ascii_word :: "string \<Rightarrow> bool" where
  "ascii_word s \<longleftrightarrow> (\<forall>c \<in> set s. 0x20 < byte c \<and> byte c < 0x80)"

lemma trim_space_ends:
  assumes "s \<noteq> []" and "0x20 < byte (hd s)" "byte (hd s) < 0x80"
    and "0x20 < byte (last s)" "byte (last s) < 0x80"
  shows "trim_space s = s"
proof -
  obtain c cs where s: "s = c # cs" using assms(1) by (cases s) auto
  have left: "trim_left s = s"
    using assms(2,3) by (intro trim_left_id) (simp add: s is_space_def)
  have "trim_right s = s"
    using assms(4,5) by (intro trim_right_id) (auto simp: decode_last_rune_def is_space_def)
  with left show ?thesis by (simp add: trim_space_def)
qed

lemma trim_space_ascii_word:
  assumes "ascii_word s"
  shows "trim_space s = s"
proof (cases "s = []")
  case False
  then have "hd s \<in> set s" "last s \<in> set s" by simp_all
  with assms False show ?thesis unfolding ascii_word_def by (intro trim_space_ends) auto
qed simp

section \<open>Prefixes, cutting, splitting and folding\<close>

text \<open>\<^verbatim>\<open>strings.TrimRight(s, "/")\<close> for a one-byte cutset.\<close>

definition trim_right_byte :: "char \<Rightarrow> string \<Rightarrow> string" where
  "trim_right_byte c s = rev (dropWhile (\<lambda>x. x = c) (rev s))"

text \<open>\<^verbatim>\<open>strings.Cut\<close>: before and after the first separator byte, \<open>None\<close> when absent.\<close>

fun cut :: "char \<Rightarrow> string \<Rightarrow> (string \<times> string) option" where
  "cut sep [] = None"
| "cut sep (c # cs) =
     (if c = sep then Some ([], cs)
      else map_option (\<lambda>(a, b). (c # a, b)) (cut sep cs))"

lemma trim_right_byte_spec:
  "\<exists>cs. s = trim_right_byte c s @ cs \<and> set cs \<subseteq> {c}"
  "\<nexists>t. trim_right_byte c s = t @ [c]"
proof -
  let ?p = "\<lambda>x. x = c"
  have "s = trim_right_byte c s @ rev (takeWhile ?p (rev s))"
    unfolding trim_right_byte_def by (simp flip: rev_append)
  then show "\<exists>cs. s = trim_right_byte c s @ cs \<and> set cs \<subseteq> {c}"
    by (intro exI [of _ "rev (takeWhile ?p (rev s))"]) (auto dest: set_takeWhileD)
  show "\<nexists>t. trim_right_byte c s = t @ [c]"
    by (auto simp: trim_right_byte_def rev_swap dropWhile_eq_Cons_conv)
qed

lemma cut_Some: "cut sep s = Some (a, b) \<Longrightarrow> s = a @ sep # b \<and> sep \<notin> set a"
  by (induction s arbitrary: a) (auto split: if_splits)

lemma cut_None: "cut sep s = None \<longleftrightarrow> sep \<notin> set s"
  by (induction s) auto

lemma cut_append: "sep \<notin> set a \<Longrightarrow> cut sep (a @ sep # b) = Some (a, b)"
  by (induction a) auto

text \<open>\<^verbatim>\<open>strings.Split\<close> with a one-byte separator.\<close>

fun split_byte :: "char \<Rightarrow> string \<Rightarrow> string list" where
  "split_byte sep [] = [[]]"
| "split_byte sep (c # cs) =
     (if c = sep then [] # split_byte sep cs
      else case split_byte sep cs of
             [] \<Rightarrow> [[c]]
           | p # ps \<Rightarrow> (c # p) # ps)"

text \<open>The runes of a string, as \<^verbatim>\<open>range\<close> yields them.\<close>

function runes :: "string \<Rightarrow> nat list" where
  "runes s =
     (if s = [] then []
      else fst (decode_rune s) # runes (drop (snd (decode_rune s)) s))"
  by pat_completeness auto
termination
  by (relation "measure length") (auto intro: length_drop_less)

declare runes.simps [simp del]

lemma runes_Nil [simp]: "runes [] = []"
  by (simp add: runes.simps)

lemma runes_ascii [simp]: "byte c < 0x80 \<Longrightarrow> runes (c # cs) = byte c # runes cs"
  by (simp add: runes.simps [of "c # cs"] Let_def)

text \<open>
  \<^verbatim>\<open>strings.EqualFold\<close> against a word of ASCII letters. Two runes outside ASCII fold to an
  ASCII letter, the Kelvin sign and the long s; the other ones fold among themselves, which
  cannot make them equal to a letter of the word.
\<close>

definition fold_rune :: "nat \<Rightarrow> nat" where
  "fold_rune r =
     (if 0x41 \<le> r \<and> r \<le> 0x5A then r + 32
      else if r = 0x212A then 0x6B
      else if r = 0x17F then 0x73
      else r)"

definition equal_fold :: "string \<Rightarrow> string \<Rightarrow> bool" where
  "equal_fold s word \<longleftrightarrow> map fold_rune (runes s) = map fold_rune (runes word)"

text \<open>
  \<^verbatim>\<open>strings.ToLower\<close>, for comparing the result with ASCII words: the runes outside ASCII
  whose lower case is an ASCII letter are U+0130 and U+212A; every other rune outside ASCII has
  a lower case outside ASCII and stays itself here.
\<close>

definition lower_rune :: "nat \<Rightarrow> nat" where
  "lower_rune r =
     (if 0x41 \<le> r \<and> r \<le> 0x5A then r + 32
      else if r = 0x130 then 0x69
      else if r = 0x212A then 0x6B
      else r)"

definition to_lower :: "string \<Rightarrow> string" where
  "to_lower s = concat (map (\<lambda>r. encode_rune (lower_rune r)) (runes s))"

lemma decode_rune_ascii: "byte c < 0x80 \<Longrightarrow> decode_rune (c # cs) = (byte c, 1)"
  by simp

declare decode_rune.simps(2) [simp del]
declare decode_rune_ascii [simp]

lemma bad_head_ascii [simp]: "byte c < 0x80 \<Longrightarrow> \<not> bad_head (c # cs)"
  by (auto simp: bad_head_def rune_error_def)

section \<open>Trimming as an interface\<close>

text \<open>
  The packages rely on \<open>TrimSpace\<close> only through these laws: a value once trimmed is stable, the
  empty text stays empty, and a text without white space is not touched.
\<close>

locale trimmer =
  fixes trim :: "string \<Rightarrow> string"
  assumes trim_idem: "trim (trim s) = trim s"
    and trim_empty: "trim [] = []"
    and trim_word: "ascii_word s \<Longrightarrow> trim s = s"
begin

lemma blank_trim: "trim (trim s) = [] \<longleftrightarrow> trim s = []"
  by (simp add: trim_idem)

lemma not_blank_not_empty: "trim s \<noteq> [] \<Longrightarrow> s \<noteq> []"
  using trim_empty by auto

lemma word_not_blank: "ascii_word s \<Longrightarrow> s \<noteq> [] \<Longrightarrow> trim s \<noteq> []"
  by (simp add: trim_word)

end

interpretation ts: trimmer trim_space
  by unfold_locales (simp_all add: trim_space_ascii_word)

end
