(* ===== verification/Go_Numeric.thy ===== *)
theory Go_Numeric
  imports Go_Text
begin

text \<open>
  What the gateway uses of \<^verbatim>\<open>strconv\<close>, \<^verbatim>\<open>fmt\<close> (\<open>%d\<close>), \<^verbatim>\<open>time.ParseDuration\<close> and
  \<^verbatim>\<open>Duration.String\<close>. A \<open>time.Duration\<close> is a signed 64-bit count of nanoseconds, an
  \<open>int\<close> here; the unsigned accumulators of \<open>ParseDuration\<close> are natural numbers with the
  wrap-around at 64 bits written out where the code can reach it. The fraction of a unit is
  computed by the library in \<open>float64\<close>: \<open>round53\<close> is rounding to 53 significant bits, ties to
  even.
\<close>

section \<open>Decimal digits\<close>

definition is_digit :: "char \<Rightarrow> bool" where
  "is_digit c \<longleftrightarrow> 0x30 \<le> byte c \<and> byte c \<le> 0x39"

definition digit_value :: "char \<Rightarrow> nat" where
  "digit_value c = byte c - 0x30"

fun digits_value :: "nat \<Rightarrow> string \<Rightarrow> nat" where
  "digits_value acc [] = acc"
| "digits_value acc (c # cs) = digits_value (10 * acc + digit_value c) cs"

fun show_nat :: "nat \<Rightarrow> string" where
  "show_nat n =
     (if n < 10 then [chr (0x30 + n)] else show_nat (n div 10) @ [chr (0x30 + n mod 10)])"

declare show_nat.simps [simp del]

definition show_int :: "int \<Rightarrow> string" where
  "show_int i = (if i < 0 then CHR ''-'' # show_nat (nat (- i)) else show_nat (nat i))"

lemma digits_value_append: "digits_value acc (a @ b) = digits_value (digits_value acc a) b"
  by (induction a arbitrary: acc) auto

lemma show_nat_digits: "c \<in> set (show_nat n) \<Longrightarrow> is_digit c"
proof (induction n rule: show_nat.induct)
  case (1 n)
  then show ?case
    by (cases "n < 10") (auto simp: show_nat.simps [of n] is_digit_def byte_chr)
qed

lemma show_nat_not_Nil [simp]: "show_nat n \<noteq> []"
  by (simp add: show_nat.simps [of n])

lemma digits_value_show_nat: "digits_value 0 (show_nat n) = n"
proof (induction n rule: show_nat.induct)
  case (1 n)
  show ?case
  proof (cases "n < 10")
    case True
    then show ?thesis by (simp add: show_nat.simps [of n] digit_value_def byte_chr)
  next
    case False
    then have "digits_value 0 (show_nat (n div 10)) = n div 10" by (rule "1.IH")
    with False show ?thesis
      by (simp add: show_nat.simps [of n] digits_value_append digit_value_def byte_chr)
  qed
qed

lemma show_nat_zero: "show_nat 0 = ''0''"
  by code_simp

lemma hd_show_nat_nonzero: "0 < n \<Longrightarrow> hd (show_nat n) \<noteq> chr 0x30"
proof (induction n rule: show_nat.induct)
  case (1 n)
  show ?case
  proof (cases "n < 10")
    case True
    with "1.prems" have "byte (chr (0x30 + n)) \<noteq> 0x30" by (simp add: byte_chr)
    with True show ?thesis by (auto simp: show_nat.simps [of n])
  next
    case False
    then show ?thesis using "1.IH" by (simp add: show_nat.simps [of n])
  qed
qed

section \<open>\<open>strconv.ParseInt(s, 10, 64)\<close>, \<open>strconv.Atoi\<close>, \<open>strconv.ParseBool\<close>\<close>

definition min_int64 :: int where
  "min_int64 = - (2 ^ 63)"

definition max_int64 :: int where
  "max_int64 = 2 ^ 63 - 1"

definition in_int64 :: "int \<Rightarrow> bool" where
  "in_int64 i \<longleftrightarrow> min_int64 \<le> i \<and> i \<le> max_int64"

text \<open>\<open>None\<close> is either of the two errors, \<open>ErrSyntax\<close> and \<open>ErrRange\<close>.\<close>

definition parse_int :: "string \<Rightarrow> int option" where
  "parse_int s =
     (let neg = (s \<noteq> [] \<and> hd s = CHR ''-'');
          ds = (if s \<noteq> [] \<and> (hd s = CHR ''-'' \<or> hd s = CHR ''+'') then tl s else s)
      in if ds = [] \<or> \<not> list_all is_digit ds then None
         else let v = int (digits_value 0 ds); i = (if neg then - v else v)
              in if in_int64 i then Some i else None)"

definition atoi :: "string \<Rightarrow> int option" where
  "atoi s = parse_int s"

definition parse_bool :: "string \<Rightarrow> bool option" where
  "parse_bool s =
     (if s \<in> {''1'', ''t'', ''T'', ''TRUE'', ''true'', ''True''} then Some True
      else if s \<in> {''0'', ''f'', ''F'', ''FALSE'', ''false'', ''False''} then Some False
      else None)"

lemma parse_int_range: "parse_int s = Some i \<Longrightarrow> in_int64 i"
  by (auto simp: parse_int_def Let_def split: if_splits)

lemma not_digit_sign [simp]: "\<not> is_digit CHR ''-''" "\<not> is_digit CHR ''+''"
  by (simp_all add: is_digit_def)

lemma hd_show_nat: "is_digit (hd (show_nat n))"
  by (rule show_nat_digits [of _ n]) simp

lemma parse_int_show_int:
  assumes "in_int64 i"
  shows "parse_int (show_int i) = Some i"
proof -
  have digits: "list_all is_digit (show_nat n)" for n
    using show_nat_digits by (auto simp: list_all_iff)
  have "hd (show_nat n) \<noteq> CHR ''-''" "hd (show_nat n) \<noteq> CHR ''+''" for n
    using hd_show_nat [of n] by (metis not_digit_sign)+
  with assms digits show ?thesis
    by (simp add: parse_int_def show_int_def Let_def digits_value_show_nat)
qed

section \<open>Rounding to a \<open>float64\<close>\<close>

text \<open>
  A positive rational is a numerator and a denominator. \<open>norm_up\<close> and \<open>norm_down\<close> scale
  it by powers of two into the interval from \<open>2 ^ 52\<close> to \<open>2 ^ 53\<close>, counting the doublings.
\<close>

function norm_up :: "nat \<Rightarrow> nat \<Rightarrow> nat \<Rightarrow> nat \<times> nat" where
  "norm_up a b u =
     (if 0 < a \<and> a < 2 ^ 52 * b then norm_up (2 * a) b (Suc u) else (a, u))"
  by pat_completeness auto
termination
  by (relation "measure (\<lambda>(a, b, u). 2 ^ 52 * b - a)") auto

function norm_down :: "nat \<Rightarrow> nat \<Rightarrow> nat \<Rightarrow> nat \<times> nat" where
  "norm_down a b v =
     (if 0 < b \<and> 2 ^ 53 * b \<le> a then norm_down a (2 * b) (Suc v) else (b, v))"
  by pat_completeness auto
termination
  by (relation "measure (\<lambda>(a, b, v). Suc a - b)") auto

declare norm_up.simps [simp del] norm_down.simps [simp del]

definition half_even :: "nat \<Rightarrow> nat \<Rightarrow> nat" where
  "half_even a b =
     (let q = a div b; r = a mod b
      in if 2 * r < b then q
         else if b < 2 * r then Suc q
         else if even q then q else Suc q)"

definition round53 :: "nat \<times> nat \<Rightarrow> nat \<times> nat" where
  "round53 x =
     (let (a, b) = x; (a', u) = norm_up a b 0; (b', v) = norm_down a' b 0
      in (half_even a' b' * 2 ^ v, 2 ^ u))"

section \<open>\<open>time.ParseDuration\<close>\<close>

definition nanosecond :: int where "nanosecond = 1"
definition microsecond :: int where "microsecond = 1000"
definition millisecond :: int where "millisecond = 1000000"
definition second :: int where "second = 1000000000"
definition minute :: int where "minute = 60000000000"
definition hour :: int where "hour = 3600000000000"

definition unit_of :: "string \<Rightarrow> nat option" where
  "unit_of u =
     (if u = ''ns'' then Some 1
      else if u = ''us'' \<or> u = [chr 0xC2, chr 0xB5, CHR ''s''] \<or> u = [chr 0xCE, chr 0xBC, CHR ''s'']
        then Some 1000
      else if u = ''ms'' then Some 1000000
      else if u = ''s'' then Some 1000000000
      else if u = ''m'' then Some 60000000000
      else if u = ''h'' then Some 3600000000000
      else None)"

text \<open>\<open>leadingInt\<close>: \<open>None\<close> is the overflow error.\<close>

fun leading_int :: "nat \<Rightarrow> string \<Rightarrow> (nat \<times> string) option" where
  "leading_int x [] = Some (x, [])"
| "leading_int x (c # cs) =
     (if \<not> is_digit c then Some (x, c # cs)
      else if 2 ^ 63 div 10 < x then None
      else let y = x * 10 + digit_value c
           in if 2 ^ 63 < y then None else leading_int y cs)"

text \<open>\<open>leadingFraction\<close>: digits beyond the range are read and dropped.\<close>

fun leading_fraction :: "nat \<Rightarrow> nat \<Rightarrow> bool \<Rightarrow> string \<Rightarrow> nat \<times> nat \<times> string" where
  "leading_fraction x scale overflow [] = (x, scale, [])"
| "leading_fraction x scale overflow (c # cs) =
     (if \<not> is_digit c then (x, scale, c # cs)
      else if overflow then leading_fraction x scale True cs
      else if (2 ^ 63 - 1) div 10 < x then leading_fraction x scale True cs
      else let y = x * 10 + digit_value c
           in if 2 ^ 63 < y then leading_fraction x scale True cs
              else leading_fraction y (scale * 10) False cs)"

text \<open>\<open>uint64(float64(f) * (float64(unit) / scale))\<close>.\<close>

definition fraction_ns :: "nat \<Rightarrow> nat \<Rightarrow> nat \<Rightarrow> nat" where
  "fraction_ns f unit scale =
     (let (a, b) = round53 (f, 1); (c, d) = round53 (unit, scale);
          (p, q) = round53 (a * c, b * d)
      in p div q)"

definition unit_char :: "char \<Rightarrow> bool" where
  "unit_char c \<longleftrightarrow> c \<noteq> CHR ''.'' \<and> \<not> is_digit c"

text \<open>One number with its unit: the value in nanoseconds and the rest of the text.\<close>

definition duration_part :: "string \<Rightarrow> (nat \<times> string) option" where
  "duration_part s =
     (if s = [] \<or> \<not> (hd s = CHR ''.'' \<or> is_digit (hd s)) then None
      else case leading_int 0 s of
        None \<Rightarrow> None
      | Some (v, s1) \<Rightarrow>
          (let pre = (length s1 \<noteq> length s);
               dot = (s1 \<noteq> [] \<and> hd s1 = CHR ''.'');
               (f, scale, s2) = (if dot then leading_fraction 0 1 False (tl s1) else (0, 1, s1));
               post = (dot \<and> length s2 \<noteq> length (tl s1));
               u = takeWhile unit_char s2;
               s3 = dropWhile unit_char s2
           in if \<not> pre \<and> \<not> post then None
              else if u = [] then None
              else case unit_of u of
                None \<Rightarrow> None
              | Some unit \<Rightarrow>
                  if 2 ^ 63 div unit < v then None
                  else let w = v * unit + (if 0 < f then fraction_ns f unit scale else 0)
                       in if 2 ^ 63 < w then None else Some (w, s3)))"

lemma leading_int_length: "leading_int x s = Some (v, r) \<Longrightarrow> length r \<le> length s"
  by (induction x s rule: leading_int.induct) (auto simp: Let_def split: if_splits)

lemma leading_fraction_length:
  "leading_fraction x scale ov s = (f, sc, r) \<Longrightarrow> length r \<le> length s"
  by (induction x scale ov s rule: leading_fraction.induct) (auto simp: Let_def split: if_splits)

lemma duration_part_length:
  assumes "duration_part s = Some (w, r)"
  shows "length r < length s"
proof -
  obtain v s1 where v: "leading_int 0 s = Some (v, s1)"
    using assms by (auto simp: duration_part_def split: if_splits option.splits)
  define fr where "fr = (if s1 \<noteq> [] \<and> hd s1 = CHR ''.'' then leading_fraction 0 1 False (tl s1) else (0, 1, s1))"
  obtain f scale s2 where fr2: "fr = (f, scale, s2)" by (cases fr)
  have len2: "length s2 \<le> length s1"
    using fr2 leading_fraction_length [of 0 1 False "tl s1" f scale s2]
    by (auto simp: fr_def split: if_splits)
  from assms v have "takeWhile unit_char s2 \<noteq> []" and r: "r = dropWhile unit_char s2"
    unfolding duration_part_def fr_def [symmetric]
    by (auto simp: fr2 Let_def fr_def [symmetric] split: if_splits option.splits)
  then have "length r < length s2"
    by (metis append_Nil length_append length_greater_0_conv less_add_same_cancel2 takeWhile_dropWhile_id)
  with len2 leading_int_length [OF v] show ?thesis by simp
qed

text \<open>The loop over the parts; the sum is a 64-bit unsigned addition.\<close>

function duration_sum :: "nat \<Rightarrow> string \<Rightarrow> nat option" where
  "duration_sum d s =
     (if s = [] then Some d
      else case duration_part s of
             None \<Rightarrow> None
           | Some (v, r) \<Rightarrow>
               (let d' = (d + v) mod 2 ^ 64
                in if 2 ^ 63 < d' then None else duration_sum d' r))"
  by pat_completeness auto
termination
  by (relation "measure (\<lambda>(d, s). length s)") (auto dest: duration_part_length)

declare duration_sum.simps [simp del]

definition parse_duration :: "string \<Rightarrow> int option" where
  "parse_duration s =
     (let neg = (s \<noteq> [] \<and> hd s = CHR ''-'');
          t = (if s \<noteq> [] \<and> (hd s = CHR ''-'' \<or> hd s = CHR ''+'') then tl s else s)
      in if t = ''0'' then Some 0
         else if t = [] then None
         else case duration_sum 0 t of
                None \<Rightarrow> None
              | Some d \<Rightarrow>
                  (if neg then Some (- int d)
                   else if 2 ^ 63 - 1 < d then None else Some (int d)))"


section \<open>\<open>Duration.String\<close>\<close>

text \<open>
  The fraction of a unit, \<open>prec\<close> digits with the trailing zeros dropped (\<open>fmtFrac\<close>), and
  the text of a whole duration.
\<close>

fun pad_digits :: "nat \<Rightarrow> nat \<Rightarrow> string" where
  "pad_digits 0 n = []"
| "pad_digits (Suc k) n = pad_digits k (n div 10) @ [chr (0x30 + n mod 10)]"

definition fraction_text :: "nat \<Rightarrow> nat \<Rightarrow> string" where
  "fraction_text prec u =
     (let ds = trim_right_byte CHR ''0'' (pad_digits prec (u mod 10 ^ prec))
      in if ds = [] then [] else CHR ''.'' # ds)"

definition duration_string :: "int \<Rightarrow> string" where
  "duration_string d =
     (let u = nat \<bar>d\<bar>;
          sign = (if d < 0 then ''-'' else [])
      in if u = 0 then ''0s''
         else if u < 1000 then sign @ show_nat u @ ''ns''
         else if u < 1000000 then
           sign @ show_nat (u div 10 ^ 3) @ fraction_text 3 u @ [chr 0xC2, chr 0xB5, CHR ''s'']
         else if u < 1000000000 then sign @ show_nat (u div 10 ^ 6) @ fraction_text 6 u @ ''ms''
         else
           (let secs = u div 10 ^ 9; mins = secs div 60; hours = mins div 60;
                s_text = show_nat (secs mod 60) @ fraction_text 9 u @ ''s''
            in if mins = 0 then sign @ s_text
               else if hours = 0 then sign @ show_nat mins @ ''m'' @ s_text
               else sign @ show_nat hours @ ''h'' @ show_nat (mins mod 60) @ ''m'' @ s_text))"

end
