(* ===== verification/Go_Json.thy ===== *)
theory Go_Json
  imports Go_Numeric
begin

text \<open>
  What the gateway uses of \<^verbatim>\<open>encoding/json\<close>: the reader of a JSON text (\<open>json_parse\<close>,
  with the nesting limit of the scanner and the unquoting of strings), decoding into a struct
  of string and integer fields (case-insensitive member names, \<open>null\<close> leaves a field alone, a
  value of the wrong type or, when strict, an unknown member is an error), and the writer of a
  struct with the HTML-safe escaping of \<open>json.Marshal\<close>. The reader runs on fuel;
  \<open>json_parse_fuel\<close> shows that more fuel than twice the length of the text never changes a result.
  The last section proves that the reader inverts the writer.
\<close>

section \<open>Values\<close>

datatype json =
    JNull
  | JBool bool
  | JNum string
  | JStr string
  | JArr "json list"
  | JObj "(string \<times> json) list"

text \<open>The delimiters, named by their code.\<close>

abbreviation quote :: char where "quote \<equiv> CHR 0x22"
abbreviation backslash :: char where "backslash \<equiv> CHR 0x5C"
abbreviation brace_open :: char where "brace_open \<equiv> CHR 0x7B"
abbreviation brace_close :: char where "brace_close \<equiv> CHR 0x7D"
abbreviation bracket_open :: char where "bracket_open \<equiv> CHR 0x5B"
abbreviation bracket_close :: char where "bracket_close \<equiv> CHR 0x5D"
abbreviation colon :: char where "colon \<equiv> CHR 0x3A"
abbreviation comma :: char where "comma \<equiv> CHR 0x2C"

definition is_ws :: "char \<Rightarrow> bool" where
  "is_ws c \<longleftrightarrow> c = CHR 0x20 \<or> c = CHR 0x09 \<or> c = CHR 0x0A \<or> c = CHR 0x0D"

definition skip_ws :: "string \<Rightarrow> string" where
  "skip_ws s = dropWhile is_ws s"

lemma length_skip_ws: "length (skip_ws s) \<le> length s"
  by (simp add: skip_ws_def length_dropWhile_le)

lemma skip_ws_Cons [simp]: "\<not> is_ws c \<Longrightarrow> skip_ws (c # cs) = c # cs"
  by (simp add: skip_ws_def)

lemma skip_ws_Nil [simp]: "skip_ws [] = []"
  by (simp add: skip_ws_def)

section \<open>Reading strings\<close>

definition hex_value :: "char \<Rightarrow> nat option" where
  "hex_value c =
     (let b = byte c in
      if 0x30 \<le> b \<and> b \<le> 0x39 then Some (b - 0x30)
      else if 0x61 \<le> b \<and> b \<le> 0x66 then Some (b - 0x61 + 10)
      else if 0x41 \<le> b \<and> b \<le> 0x46 then Some (b - 0x41 + 10)
      else None)"

text \<open>Four hexadecimal digits (\<open>getu4\<close>) and the rest.\<close>

definition hex4 :: "string \<Rightarrow> (nat \<times> string) option" where
  "hex4 s =
     (case s of
        a # b # c # d # r \<Rightarrow>
          (case (hex_value a, hex_value b, hex_value c, hex_value d) of
             (Some w, Some x, Some y, Some z) \<Rightarrow>
               Some (w * 4096 + x * 256 + y * 16 + z, r)
           | _ \<Rightarrow> None)
      | _ \<Rightarrow> None)"

definition high_surrogate :: "nat \<Rightarrow> bool" where
  "high_surrogate r \<longleftrightarrow> 0xD800 \<le> r \<and> r < 0xDC00"

definition low_surrogate :: "nat \<Rightarrow> bool" where
  "low_surrogate r \<longleftrightarrow> 0xDC00 \<le> r \<and> r < 0xE000"

text \<open>After \<open>\u\<close>: a rune, a surrogate pair, or a lone surrogate (the replacement rune).\<close>

definition unicode_escape :: "string \<Rightarrow> (string \<times> string) option" where
  "unicode_escape s =
     (case hex4 s of
        None \<Rightarrow> None
      | Some (r1, rest) \<Rightarrow>
          if high_surrogate r1 \<and> 2 \<le> length rest \<and> rest ! 0 = backslash \<and> rest ! 1 = CHR ''u''
          then
            (case hex4 (drop 2 rest) of
               None \<Rightarrow> Some (encode_rune rune_error, rest)
             | Some (r2, rest2) \<Rightarrow>
                 if low_surrogate r2
                 then Some (encode_rune (0x10000 + (r1 - 0xD800) * 1024 + (r2 - 0xDC00)), rest2)
                 else Some (encode_rune rune_error, rest))
          else if high_surrogate r1 \<or> low_surrogate r1 then Some (encode_rune rune_error, rest)
          else Some (encode_rune r1, rest))"

text \<open>After a backslash.\<close>

definition parse_escape :: "string \<Rightarrow> (string \<times> string) option" where
  "parse_escape s =
     (case s of
        [] \<Rightarrow> None
      | c # r \<Rightarrow>
          if c = quote \<or> c = backslash \<or> c = CHR ''/'' then Some ([c], r)
          else if c = CHR ''b'' then Some ([chr 0x08], r)
          else if c = CHR ''f'' then Some ([chr 0x0C], r)
          else if c = CHR ''n'' then Some ([chr 0x0A], r)
          else if c = CHR ''r'' then Some ([chr 0x0D], r)
          else if c = CHR ''t'' then Some ([chr 0x09], r)
          else if c = CHR ''u'' then unicode_escape r
          else None)"

lemma hex4_length: "hex4 s = Some (n, r) \<Longrightarrow> length r < length s"
  by (auto simp: hex4_def split: list.splits option.splits)

lemma unicode_escape_length:
  assumes "unicode_escape s = Some (out, r)"
  shows "length r < length s"
proof -
  obtain r1 rest where h: "hex4 s = Some (r1, rest)"
    using assms by (auto simp: unicode_escape_def split: option.splits)
  have "length r \<le> length rest"
    using assms h hex4_length [of "drop 2 rest"]
    by (fastforce simp: unicode_escape_def split: option.splits if_splits)
  with hex4_length [OF h] show ?thesis by simp
qed

lemma parse_escape_length: "parse_escape s = Some (out, r) \<Longrightarrow> length r < length s"
  by (auto simp: parse_escape_def dest: unicode_escape_length split: list.splits if_splits)

text \<open>
  One piece of a string: an escape, a rune copied as it is, or the replacement rune for a byte
  that starts no well-formed sequence; then the body up to the closing quote.
\<close>

definition str_piece :: "string \<Rightarrow> (string \<times> string) option" where
  "str_piece s =
     (if s = [] then None
      else if hd s = backslash then parse_escape (tl s)
      else if byte (hd s) < 0x20 then None
      else if bad_head s then Some (encode_rune rune_error, tl s)
      else Some (take (snd (decode_rune s)) s, drop (snd (decode_rune s)) s))"

lemma str_piece_length:
  assumes "str_piece s = Some (out, r)"
  shows "length r < length s"
proof -
  have s: "s \<noteq> []" using assms by (auto simp: str_piece_def)
  then have "length (tl s) < length s" by simp
  with assms s show ?thesis
    using drop_rune_less [OF s] parse_escape_length [of "tl s" out r]
    by (auto simp: str_piece_def simp del: length_drop split: if_splits)
qed

function parse_str :: "string \<Rightarrow> (string \<times> string) option" where
  "parse_str s =
     (if s = [] then None
      else if hd s = quote then Some ([], tl s)
      else case str_piece s of
             None \<Rightarrow> None
           | Some (out, r) \<Rightarrow> map_option (map_prod (append out) id) (parse_str r))"
  by pat_completeness auto
termination
  by (relation "measure length") (auto dest: str_piece_length)

declare parse_str.simps [simp del]

lemma parse_str_length: "parse_str s = Some (out, r) \<Longrightarrow> length r < length s"
proof (induction s arbitrary: out r rule: parse_str.induct)
  case (1 s)
  show ?case
  proof (cases "s = [] \<or> hd s = quote")
    case True
    with "1.prems" have "s \<noteq> []" and "r = tl s"
      by (auto simp: parse_str.simps [of s] split: if_splits)
    then show ?thesis by simp
  next
    case False
    with "1.prems" obtain o1 r1 o2 where p: "str_piece s = Some (o1, r1)" "parse_str r1 = Some (o2, r)"
      by (auto simp: parse_str.simps [of s] split: option.splits)
    with "1.IH" False have "length r < length r1" by blast
    with str_piece_length [OF p(1)] show ?thesis by simp
  qed
qed

section \<open>Reading values\<close>

text \<open>A number literal: sign, integer part, fraction, exponent; the literal is kept as text.\<close>

definition number_int :: "string \<Rightarrow> (string \<times> string) option" where
  "number_int s =
     (if s = [] \<or> \<not> is_digit (hd s) then None
      else if hd s = CHR ''0'' then Some (''0'', tl s)
      else Some (takeWhile is_digit s, dropWhile is_digit s))"

definition number_frac :: "string \<Rightarrow> (string \<times> string) option" where
  "number_frac s =
     (if s \<noteq> [] \<and> hd s = CHR ''.'' then
        (if takeWhile is_digit (tl s) = [] then None
         else Some (CHR ''.'' # takeWhile is_digit (tl s), dropWhile is_digit (tl s)))
      else Some ([], s))"

definition number_exp :: "string \<Rightarrow> (string \<times> string) option" where
  "number_exp s =
     (if s \<noteq> [] \<and> (hd s = CHR ''e'' \<or> hd s = CHR ''E'') then
        (let r = tl s;
             sgn = (if r \<noteq> [] \<and> (hd r = CHR ''+'' \<or> hd r = CHR ''-'') then [hd r] else []);
             ds = drop (length sgn) r
         in if takeWhile is_digit ds = [] then None
            else Some (hd s # sgn @ takeWhile is_digit ds, dropWhile is_digit ds))
      else Some ([], s))"

definition parse_number :: "string \<Rightarrow> (json \<times> string) option" where
  "parse_number s =
     (let sgn = (if s \<noteq> [] \<and> hd s = CHR ''-'' then ''-'' else [])
      in Option.bind (number_int (drop (length sgn) s)) (\<lambda>(i, r1).
         Option.bind (number_frac r1) (\<lambda>(f, r2).
         Option.bind (number_exp r2) (\<lambda>(e, r3).
           Some (JNum (sgn @ i @ f @ e), r3)))))"

lemma length_dropWhile_less: "s \<noteq> [] \<Longrightarrow> P (hd s) \<Longrightarrow> length (dropWhile P s) < length s"
  using length_dropWhile_le [of P "tl s"] by (cases s) auto

lemma number_int_length: "number_int s = Some (i, r) \<Longrightarrow> length r < length s"
  by (auto simp: number_int_def length_dropWhile_less split: if_splits)

lemma number_frac_length: "number_frac s = Some (f, r) \<Longrightarrow> length r \<le> length s"
  using length_dropWhile_le [of is_digit "tl s"]
  by (auto simp: number_frac_def split: if_splits)

lemma number_exp_length: "number_exp s = Some (e, r) \<Longrightarrow> length r \<le> length s"
  using length_dropWhile_le [of is_digit "drop 1 (tl s)"] length_dropWhile_le [of is_digit "tl s"]
  by (auto simp: number_exp_def Let_def split: if_splits)

lemma parse_number_length: "parse_number s = Some (v, r) \<Longrightarrow> length r < length s"
  by (fastforce simp: parse_number_def Let_def bind_eq_Some_conv
      dest: number_int_length number_frac_length number_exp_length)

text \<open>The first byte of a text is the given one.\<close>

definition starts :: "char \<Rightarrow> string \<Rightarrow> bool" where
  "starts c s \<longleftrightarrow> s \<noteq> [] \<and> hd s = c"

lemma starts_Cons [simp]: "starts c (x # xs) \<longleftrightarrow> x = c"
  by (simp add: starts_def)

lemma starts_Nil [simp]: "\<not> starts c []"
  by (simp add: starts_def)

lemma starts_length: "starts c s \<Longrightarrow> length (tl s) < length s"
  by (simp add: starts_def)

text \<open>A value that is neither an object nor an array.\<close>

definition parse_scalar :: "string \<Rightarrow> (json \<times> string) option" where
  "parse_scalar t =
     (if starts quote t then map_option (map_prod JStr id) (parse_str (tl t))
      else if prefix ''true'' t then Some (JBool True, drop 4 t)
      else if prefix ''false'' t then Some (JBool False, drop 5 t)
      else if prefix ''null'' t then Some (JNull, drop 4 t)
      else parse_number t)"

lemma parse_scalar_length:
  assumes "parse_scalar t = Some (v, r)"
  shows "length r < length t"
proof (cases "starts quote t")
  case True
  with assms obtain out where "parse_str (tl t) = Some (out, r)"
    by (auto simp: parse_scalar_def)
  then have "length r < length (tl t)" by (rule parse_str_length)
  with starts_length [OF True] show ?thesis by simp
next
  case False
  with assms show ?thesis
    by (auto simp: parse_scalar_def prefix_def parse_number_length split: if_splits)
qed

text \<open>
  \<open>f\<close> is the fuel; \<open>d\<close> is the number of nested objects and arrays the scanner still
  accepts (\<open>maxNestingDepth\<close>). \<open>parse_members\<close> reads a non-empty object after its brace,
  \<open>parse_elems\<close> a non-empty array after its bracket.
\<close>

fun parse_value :: "nat \<Rightarrow> nat \<Rightarrow> string \<Rightarrow> (json \<times> string) option"
  and parse_members :: "nat \<Rightarrow> nat \<Rightarrow> string \<Rightarrow> ((string \<times> json) list \<times> string) option"
  and parse_elems :: "nat \<Rightarrow> nat \<Rightarrow> string \<Rightarrow> (json list \<times> string) option" where
  "parse_value 0 d s = None"
| "parse_value (Suc f) d s =
     (let t = skip_ws s in
      if starts brace_open t then
        (if d = 0 then None
         else if starts brace_close (skip_ws (tl t)) then Some (JObj [], tl (skip_ws (tl t)))
         else map_option (map_prod JObj id) (parse_members f (d - 1) (tl t)))
      else if starts bracket_open t then
        (if d = 0 then None
         else if starts bracket_close (skip_ws (tl t)) then Some (JArr [], tl (skip_ws (tl t)))
         else map_option (map_prod JArr id) (parse_elems f (d - 1) (tl t)))
      else parse_scalar t)"
| "parse_members 0 d s = None"
| "parse_members (Suc f) d s =
     (if \<not> starts quote (skip_ws s) then None
      else case parse_str (tl (skip_ws s)) of
        None \<Rightarrow> None
      | Some (k, r) \<Rightarrow>
          if \<not> starts colon (skip_ws r) then None
          else case parse_value f d (tl (skip_ws r)) of
            None \<Rightarrow> None
          | Some (v, r2) \<Rightarrow>
              if starts brace_close (skip_ws r2) then Some ([(k, v)], tl (skip_ws r2))
              else if starts comma (skip_ws r2) then
                map_option (map_prod (Cons (k, v)) id) (parse_members f d (tl (skip_ws r2)))
              else None)"
| "parse_elems 0 d s = None"
| "parse_elems (Suc f) d s =
     (case parse_value f d s of
        None \<Rightarrow> None
      | Some (v, r) \<Rightarrow>
          if starts bracket_close (skip_ws r) then Some ([v], tl (skip_ws r))
          else if starts comma (skip_ws r) then
            map_option (map_prod (Cons v) id) (parse_elems f d (tl (skip_ws r)))
          else None)"

lemma starts_skip_length: "starts c (skip_ws s) \<Longrightarrow> length (tl (skip_ws s)) < length s"
  using starts_length [of c "skip_ws s"] length_skip_ws [of s] by simp

definition json_parse :: "string \<Rightarrow> json option" where
  "json_parse s =
     (case parse_value (Suc (2 * length s)) 10000 s of
        None \<Rightarrow> None
      | Some (v, r) \<Rightarrow> if skip_ws r = [] then Some v else None)"

lemma parse_length:
  "parse_value f d s = Some (v, r) \<Longrightarrow> length r < length s"
  "parse_members f d s = Some (ms, r) \<Longrightarrow> length r < length s"
  "parse_elems f d s = Some (es, r) \<Longrightarrow> length r < length s"
proof (induction f d s and f d s and f d s arbitrary: v r and ms r and es r
    rule: parse_value_parse_members_parse_elems.induct)
  case (2 f d s)
  have *: "length r < length (tl (skip_ws s)) \<Longrightarrow> starts c (skip_ws s) \<Longrightarrow> length r < length s" for c
    using starts_skip_length [of c s] by (metis less_trans)
  have ***: "starts c' (skip_ws (tl (skip_ws s))) \<Longrightarrow> starts c (skip_ws s) \<Longrightarrow>
      length (tl (skip_ws (tl (skip_ws s)))) < length s" for c c'
    by (metis less_trans starts_skip_length)
  have **: "length r < length (skip_ws s) \<Longrightarrow> length r < length s"
    using length_skip_ws [of s] by simp
  show ?case
    using "2.prems" "2.IH"
    by (auto simp: Let_def simp del: length_tl dest!: parse_scalar_length
        intro: * ** *** split: if_splits)
next
  case (4 f d s)
  from "4.prems" obtain k r1 v1 r2 where q: "starts quote (skip_ws s)"
    and k: "parse_str (tl (skip_ws s)) = Some (k, r1)" and c: "starts colon (skip_ws r1)"
    and v: "parse_value f d (tl (skip_ws r1)) = Some (v1, r2)"
    and tail: "r = tl (skip_ws r2) \<and> starts brace_close (skip_ws r2)
       \<or> (starts comma (skip_ws r2) \<and> (\<exists>ms'. parse_members f d (tl (skip_ws r2)) = Some (ms', r)))"
    by (auto split: if_splits option.splits)
  have "length r1 < length s"
    using starts_skip_length [OF q] parse_str_length [OF k] by linarith
  moreover have "length r2 < length r1"
    using starts_skip_length [OF c] "4.IH"(1) q k c v by fastforce
  moreover have "length r < length r2"
    using tail
  proof
    assume "starts comma (skip_ws r2) \<and> (\<exists>ms'. parse_members f d (tl (skip_ws r2)) = Some (ms', r))"
    then obtain ms' where cm: "starts comma (skip_ws r2)"
      and m: "parse_members f d (tl (skip_ws r2)) = Some (ms', r)" by blast
    from cm have nb: "\<not> starts brace_close (skip_ws r2)" by (auto simp: starts_def)
    have "length r < length (tl (skip_ws r2))"
      using "4.IH"(2) [OF _ k _ _ v _ nb cm m] q c by simp
    with starts_skip_length [OF cm] show ?thesis by linarith
  qed (use starts_skip_length in blast)
  ultimately show ?case by linarith
next
  case (6 f d s)
  from "6.prems" obtain v1 r1 where v: "parse_value f d s = Some (v1, r1)"
    and tail: "r = tl (skip_ws r1) \<and> starts bracket_close (skip_ws r1)
       \<or> (starts comma (skip_ws r1) \<and> (\<exists>es'. parse_elems f d (tl (skip_ws r1)) = Some (es', r)))"
    by (auto split: if_splits option.splits)
  have "length r1 < length s" by (rule "6.IH"(1) [OF v])
  moreover have "length r < length r1"
    using tail
  proof
    assume "starts comma (skip_ws r1) \<and> (\<exists>es'. parse_elems f d (tl (skip_ws r1)) = Some (es', r))"
    then obtain es' where cm: "starts comma (skip_ws r1)"
      and m: "parse_elems f d (tl (skip_ws r1)) = Some (es', r)" by blast
    from cm have nb: "\<not> starts bracket_close (skip_ws r1)" by (auto simp: starts_def)
    have "length r < length (tl (skip_ws r1))"
      using "6.IH"(2) [OF v _ nb cm m] by simp
    with starts_skip_length [OF cm] show ?thesis by linarith
  qed (use starts_skip_length in blast)
  ultimately show ?case by linarith
qed simp_all

text \<open>Fuel: beyond twice the length of the text, more of it changes nothing.\<close>

lemma parse_fuel:
  "2 * length s < f \<Longrightarrow> 2 * length s < f' \<Longrightarrow> parse_value f d s = parse_value f' d s"
  "2 * length s < f \<Longrightarrow> 2 * length s < f' \<Longrightarrow> parse_members f d s = parse_members f' d s"
  "2 * length s + 1 < f \<Longrightarrow> 2 * length s + 1 < f' \<Longrightarrow> parse_elems f d s = parse_elems f' d s"
proof (induction f d s and f d s and f d s arbitrary: f' and f' and f'
    rule: parse_value_parse_members_parse_elems.induct)
  case (2 f d s)
  obtain g where g: "f' = Suc g" using "2.prems" by (cases f') simp_all
  let ?t = "skip_ws s"
  have less: "starts c ?t \<Longrightarrow> 2 * length (tl ?t) + 1 < f \<and> 2 * length (tl ?t) + 1 < g" for c
    using starts_skip_length [of c s] "2.prems" g by simp
  have m: "parse_members f (d - 1) (tl ?t) = parse_members g (d - 1) (tl ?t)"
    if "starts brace_open ?t" "d \<noteq> 0" "\<not> starts brace_close (skip_ws (tl ?t))"
    using "2.IH"(1) that less [OF that(1)] by simp
  have e: "parse_elems f (d - 1) (tl ?t) = parse_elems g (d - 1) (tl ?t)"
    if "\<not> starts brace_open ?t" "starts bracket_open ?t" "d \<noteq> 0"
      "\<not> starts bracket_close (skip_ws (tl ?t))"
    using "2.IH"(2) that less [OF that(2)] by simp
  show ?case using m e by (simp add: g Let_def)
next
  case (4 f d s)
  obtain g where g: "f' = Suc g" using "4.prems" by (cases f') simp_all
  show ?case
  proof (cases "starts quote (skip_ws s)")
    case q: True
    show ?thesis
    proof (cases "parse_str (tl (skip_ws s))")
      case (Some p)
      obtain k r where p: "p = (k, r)" by (cases p)
      have lr: "length r < length s"
        using starts_skip_length [OF q] parse_str_length [of "tl (skip_ws s)" k r] Some p by simp
      show ?thesis
      proof (cases "starts colon (skip_ws r)")
        case c: True
        let ?u = "tl (skip_ws r)"
        have lu: "length ?u < length s" using starts_skip_length [OF c] lr by linarith
        have v: "parse_value f d ?u = parse_value g d ?u"
          by (rule "4.IH"(1) [OF _ Some]) (use q c lu p "4.prems" g in simp_all)
        have m: "parse_members f d (tl (skip_ws r2)) = parse_members g d (tl (skip_ws r2))"
          if pv: "parse_value f d ?u = Some (x, r2)" and nb: "\<not> starts brace_close (skip_ws r2)"
            and cm: "starts comma (skip_ws r2)" for x r2
        proof -
          have "length (tl (skip_ws r2)) < length s"
            using starts_skip_length [OF cm] parse_length(1) [OF pv] lu by linarith
          then show ?thesis
            by (intro "4.IH"(2) [OF _ Some _ _ pv _ nb cm]) (use q c p "4.prems" g in simp_all)
        qed
        show ?thesis
        proof (cases "parse_value g d ?u")
          case None
          then show ?thesis by (simp add: g q Some p c v)
        next
          case pv: (Some pr)
          obtain x r2 where pr: "pr = (x, r2)" by (cases pr)
          show ?thesis
            using m [of x r2] v pv pr
            by (simp add: g q Some p c)
        qed
      qed (simp add: g q Some p)
    qed (simp add: g q)
  qed (simp add: g)
next
  case (6 f d s)
  obtain g where g: "f' = Suc g" using "6.prems" by (cases f') simp_all
  have v: "parse_value f d s = parse_value g d s"
    by (rule "6.IH"(1)) (use "6.prems" g in simp_all)
  have e: "parse_elems f d (tl (skip_ws r)) = parse_elems g d (tl (skip_ws r))"
    if pv: "parse_value f d s = Some (x, r)" and nb: "\<not> starts bracket_close (skip_ws r)"
      and cm: "starts comma (skip_ws r)" for x r
  proof -
    have "length (tl (skip_ws r)) < length s"
      using starts_skip_length [OF cm] parse_length(1) [OF pv] by linarith
    then show ?thesis
      by (intro "6.IH"(2) [OF pv _ nb cm]) (use "6.prems" g in simp_all)
  qed
  show ?case
  proof (cases "parse_value g d s")
    case None
    then show ?thesis by (simp add: g v)
  next
    case pv: (Some pr)
    obtain x r where pr: "pr = (x, r)" by (cases pr)
    show ?thesis using e [of x r] v pv pr by (simp add: g)
  qed
qed simp_all

lemma json_parse_fuel:
  "2 * length s < f \<Longrightarrow> json_parse s =
     (case parse_value f 10000 s of
        None \<Rightarrow> None
      | Some (v, r) \<Rightarrow> if skip_ws r = [] then Some v else None)"
  unfolding json_parse_def using parse_fuel(1) [of s "Suc (2 * length s)" f 10000] by simp

section \<open>Decoding into a struct\<close>

text \<open>
  A struct is the list of its JSON field names with their kinds, and its value a function from
  the field names. A member goes to the field of its exact name, else to the first one it
  equals up to case.
\<close>

datatype field_kind = FString | FInt

datatype field_value = VStr string | VInt int

type_synonym field_spec = "(string \<times> field_kind) list"
type_synonym struct_value = "string \<Rightarrow> field_value"

fun zero_value :: "field_kind \<Rightarrow> field_value" where
  "zero_value FString = VStr []"
| "zero_value FInt = VInt 0"

definition zero_struct :: "field_spec \<Rightarrow> struct_value" where
  "zero_struct spec = (\<lambda>k. case map_of spec k of None \<Rightarrow> VStr [] | Some kd \<Rightarrow> zero_value kd)"

definition find_field :: "field_spec \<Rightarrow> string \<Rightarrow> (string \<times> field_kind) option" where
  "find_field spec key =
     (case map_of spec key of
        Some kd \<Rightarrow> Some (key, kd)
      | None \<Rightarrow> find (\<lambda>(n, _). equal_fold key n) spec)"

text \<open>The new value of a field, \<open>None\<close> for a value of the wrong type.\<close>

fun decode_field :: "field_kind \<Rightarrow> json \<Rightarrow> field_value \<Rightarrow> field_value option" where
  "decode_field kd JNull old = Some old"
| "decode_field FString (JStr s) old = Some (VStr s)"
| "decode_field FInt (JNum n) old = map_option VInt (parse_int n)"
| "decode_field kd v old = None"

text \<open>All members in order; the flag is the error that \<open>Decode\<close> returns at the end.\<close>

fun decode_members ::
  "bool \<Rightarrow> field_spec \<Rightarrow> (string \<times> json) list \<Rightarrow> struct_value \<times> bool \<Rightarrow> struct_value \<times> bool" where
  "decode_members strict spec [] acc = acc"
| "decode_members strict spec ((k, v) # ms) (vals, err) =
     (case find_field spec k of
        None \<Rightarrow> decode_members strict spec ms (vals, err \<or> strict)
      | Some (n, kd) \<Rightarrow>
          (case decode_field kd v (vals n) of
             None \<Rightarrow> decode_members strict spec ms (vals, True)
           | Some x \<Rightarrow> decode_members strict spec ms (vals(n := x), err)))"

fun decode_struct :: "bool \<Rightarrow> field_spec \<Rightarrow> json \<Rightarrow> struct_value option" where
  "decode_struct strict spec (JObj ms) =
     (let (vals, err) = decode_members strict spec ms (zero_struct spec, False)
      in if err then None else Some vals)"
| "decode_struct strict spec JNull = Some (zero_struct spec)"
| "decode_struct strict spec v = None"

text \<open>\<open>json.Unmarshal\<close> into a struct.\<close>

definition unmarshal :: "field_spec \<Rightarrow> string \<Rightarrow> struct_value option" where
  "unmarshal spec s = Option.bind (json_parse s) (decode_struct False spec)"

text \<open>The next value of a \<open>json.Decoder\<close> and the input left, and its end of input.\<close>

definition decoder_next :: "string \<Rightarrow> (json \<times> string) option" where
  "decoder_next s = parse_value (Suc (2 * length s)) 10000 s"

definition decoder_eof :: "string \<Rightarrow> bool" where
  "decoder_eof s \<longleftrightarrow> skip_ws s = []"

definition str_of :: "field_value \<Rightarrow> string" where
  "str_of v = (case v of VStr s \<Rightarrow> s | VInt _ \<Rightarrow> [])"

definition int_of :: "field_value \<Rightarrow> int" where
  "int_of v = (case v of VInt i \<Rightarrow> i | VStr _ \<Rightarrow> 0)"

lemma str_of_VStr [simp]: "str_of (VStr s) = s"
  by (simp add: str_of_def)

lemma int_of_VInt [simp]: "int_of (VInt i) = i"
  by (simp add: int_of_def)

lemma json_parse_decoder:
  "json_parse s = Some v \<longleftrightarrow> (\<exists>r. decoder_next s = Some (v, r) \<and> decoder_eof r)"
  by (auto simp: json_parse_def decoder_next_def decoder_eof_def split: option.splits if_splits)

section \<open>Writing\<close>

definition hex_digit :: "nat \<Rightarrow> char" where
  "hex_digit n = (if n < 10 then chr (0x30 + n) else chr (0x61 + (n - 10)))"

text \<open>A byte below \<open>0x80\<close> in a string; \<open><\<close>, \<open>>\<close> and \<open>&\<close> are escaped for HTML.\<close>

definition escape_ascii :: "char \<Rightarrow> string" where
  "escape_ascii c =
     (if c = quote \<or> c = backslash then [backslash, c]
      else if c = chr 0x08 then [backslash, CHR ''b'']
      else if c = chr 0x0C then [backslash, CHR ''f'']
      else if c = chr 0x0A then [backslash, CHR ''n'']
      else if c = chr 0x0D then [backslash, CHR ''r'']
      else if c = chr 0x09 then [backslash, CHR ''t'']
      else if byte c < 0x20 \<or> c = CHR ''<'' \<or> c = CHR ''>'' \<or> c = CHR 0x26
        then [backslash, CHR ''u'', CHR ''0'', CHR ''0'',
              hex_digit (byte c div 16), hex_digit (byte c mod 16)]
      else [c])"

definition escape_head :: "string \<Rightarrow> string" where
  "escape_head s =
     (if byte (hd s) < 0x80 then escape_ascii (hd s)
      else if bad_head s
        then [backslash, CHR ''u'', CHR ''f'', CHR ''f'', CHR ''f'', CHR ''d'']
      else if fst (decode_rune s) = 0x2028 \<or> fst (decode_rune s) = 0x2029
        then [backslash, CHR ''u'', CHR ''2'', CHR ''0'', CHR ''2'',
              hex_digit (fst (decode_rune s) mod 16)]
      else take (snd (decode_rune s)) s)"

function json_escape :: "string \<Rightarrow> string" where
  "json_escape s =
     (if s = [] then [] else escape_head s @ json_escape (drop (snd (decode_rune s)) s))"
  by pat_completeness auto
termination
  by (relation "measure length") (auto intro: drop_rune_less)

declare json_escape.simps [simp del]

definition marshal_string :: "string \<Rightarrow> string" where
  "marshal_string s = quote # json_escape s @ [quote]"

fun marshal_value :: "field_value \<Rightarrow> string" where
  "marshal_value (VStr s) = marshal_string s"
| "marshal_value (VInt i) = show_int i"

fun marshal_members :: "(string \<times> field_value) list \<Rightarrow> string" where
  "marshal_members [] = []"
| "marshal_members [(k, v)] = marshal_string k @ colon # marshal_value v"
| "marshal_members ((k, v) # m # ms) =
     marshal_string k @ colon # marshal_value v @ comma # marshal_members (m # ms)"

definition marshal_struct :: "(string \<times> field_value) list \<Rightarrow> string" where
  "marshal_struct ms = brace_open # marshal_members ms @ [brace_close]"

section \<open>The reader inverts the writer\<close>

text \<open>
  What a string becomes on the way: every byte that starts no well-formed sequence is replaced
  by U+FFFD. A valid text is kept.
\<close>

function sanitize :: "string \<Rightarrow> string" where
  "sanitize s =
     (if s = [] then []
      else (if bad_head s then encode_rune rune_error else take (snd (decode_rune s)) s)
           @ sanitize (drop (snd (decode_rune s)) s))"
  by pat_completeness auto
termination
  by (relation "measure length") (auto intro: drop_rune_less)

declare sanitize.simps [simp del]

lemma sanitize_Nil [simp]: "sanitize [] = []"
  by (simp add: sanitize.simps)

lemma sanitize_valid: "utf8_valid s \<Longrightarrow> sanitize s = s"
proof (induction s rule: sanitize.induct)
  case (1 s)
  show ?case
  proof (cases "s = []")
    case False
    with "1.prems" have "\<not> bad_head s" "utf8_valid (drop (snd (decode_rune s)) s)"
      by (auto simp: utf8_valid.simps [of s] split: if_splits)
    with "1.IH" False show ?thesis by (simp add: sanitize.simps [of s])
  qed simp
qed

lemma hex_value_digit: "n < 16 \<Longrightarrow> hex_value (hex_digit n) = Some n"
  by (simp add: hex_value_def hex_digit_def byte_chr Let_def)

lemma hex4_digits:
  assumes "w < 16" "x < 16" "y < 16" "z < 16"
  shows "hex4 (hex_digit w # hex_digit x # hex_digit y # hex_digit z # u)
    = Some (w * 4096 + x * 256 + y * 16 + z, u)"
  using assms by (simp add: hex4_def hex_value_digit)

lemma unicode_escape_plain:
  "hex4 s = Some (r, u) \<Longrightarrow> \<not> high_surrogate r \<Longrightarrow> \<not> low_surrogate r \<Longrightarrow>
   unicode_escape s = Some (encode_rune r, u)"
  by (simp add: unicode_escape_def)

lemma hex_literals:
  "CHR ''0'' = hex_digit 0" "CHR ''2'' = hex_digit 2" "CHR ''d'' = hex_digit 13" "CHR ''f'' = hex_digit 15"
  by (code_simp+)

lemma str_piece_escape:
  "str_piece (backslash # e) = parse_escape e"
  by (simp add: str_piece_def)

lemma unicode_escape_ascii:
  assumes "byte c < 0x80"
  shows "unicode_escape (CHR ''0'' # CHR ''0'' # hex_digit (byte c div 16) # hex_digit (byte c mod 16) # u)
    = Some ([c], u)"
proof -
  have "hex4 (CHR ''0'' # CHR ''0'' # hex_digit (byte c div 16) # hex_digit (byte c mod 16) # u)
      = Some (byte c, u)"
    unfolding hex_literals using assms by (subst hex4_digits) auto
  moreover have "encode_rune (byte c) = [c]" using assms by (simp add: encode_rune_def)
  ultimately show ?thesis
    using assms by (simp add: unicode_escape_plain high_surrogate_def low_surrogate_def)
qed

lemma str_piece_escape_ascii:
  assumes "byte c < 0x80"
  shows "str_piece (escape_ascii c @ u) = Some ([c], u)"
proof -
  have "unicode_escape (CHR ''0'' # CHR ''0'' # hex_digit (byte c div 16) # hex_digit (byte c mod 16) # u)
    = Some ([c], u)" by (rule unicode_escape_ascii [OF assms])
  moreover have "byte c < 0x20 \<Longrightarrow> c \<noteq> backslash" by auto
  ultimately show ?thesis
    using assms by (auto simp: escape_ascii_def str_piece_escape parse_escape_def str_piece_def)
qed

text \<open>The two separators U+2028 and U+2029 have one encoding each.\<close>

lemma decode3_separator:
  assumes "decode3 b0 cs = Some r" and "r = 0x2028 \<or> r = 0x2029" and "0xE0 \<le> b0"
  shows "\<exists>u. b0 = 0xE2 \<and> cs = chr 0x80 # chr (r - 0x1F80) # u"
proof -
  obtain c1 c2 u where cs: "cs = c1 # c2 # u" and acc: "accept_second b0 (byte c1)"
    and c2: "0x80 \<le> byte c2" "byte c2 \<le> 0xBF"
    and r: "r = (b0 - 0xE0) * 4096 + (byte c1 - 0x80) * 64 + (byte c2 - 0x80)"
    using assms(1) by (auto simp: decode3_def cont_byte_def split: list.split_asm if_split_asm)
  have c1: "0x80 \<le> byte c1" "byte c1 \<le> 0xBF"
    using acc by (auto simp: accept_second_def cont_byte_def split: if_splits)
  obtain x y z where xyz: "b0 = 0xE0 + x" "byte c1 = 0x80 + y" "byte c2 = 0x80 + z"
    using assms(3) c1(1) c2(1) by (metis le_iff_add)
  have rx: "r = x * 4096 + y * 64 + z" "y < 64" "z < 64" using r c1 c2 xyz by auto
  with assms(2) have "x = 2" by linarith
  with rx assms(2) have "y = 0" by linarith
  with \<open>x = 2\<close> rx have "x = 2 \<and> y = 0 \<and> z = r - 0x2000" by simp
  then have "b0 = 0xE2" "byte c1 = 0x80" "byte c2 = r - 0x1F80" using xyz assms(2) by auto
  then show ?thesis using cs by (metis chr_byte)
qed

lemma decode_rune_separator:
  assumes "fst (decode_rune s) = r" and "r = 0x2028 \<or> r = 0x2029" and "0x80 \<le> byte (hd s)" and "s \<noteq> []"
  shows "take (snd (decode_rune s)) s = encode_rune r"
proof -
  obtain c0 cs where s: "s = c0 # cs" using assms(4) by (cases s) auto
  have d3: "decode_rune s = (r, 3) \<and> decode3 (byte c0) cs = Some r \<and> 0xE0 \<le> byte c0"
    using assms(1-3) decode2_bound [of "byte c0" cs] decode4_bound [of "byte c0" cs]
    by (auto simp: s decode_rune.simps(2) Let_def or_error_def rune_error_def split: if_splits option.splits)
  then obtain u where u: "byte c0 = 0xE2" "cs = chr 0x80 # chr (r - 0x1F80) # u"
    using decode3_separator assms(2) by blast
  have c0: "c0 = chr 0xE2" using u(1) by (metis chr_byte)
  have "take 3 (c0 # cs) = [chr 0xE2, chr 0x80, chr (r - 0x1F80)]"
    using u(2) c0 by (simp add: eval_nat_numeral)
  with d3 assms(2) show ?thesis by (auto simp: s encode_rune_def)
qed

text \<open>One head of the escaped text is one piece for the reader.\<close>

lemma escape_head_separator:
  assumes "s \<noteq> []" "0x80 \<le> byte (hd s)" "r = fst (decode_rune s)" "r = 0x2028 \<or> r = 0x2029"
  shows "str_piece (backslash # CHR ''u'' # CHR ''2'' # CHR ''0'' # CHR ''2'' # hex_digit (r mod 16) # u)
    = Some (take (snd (decode_rune s)) s, u)"
proof -
  have "hex4 (CHR ''2'' # CHR ''0'' # CHR ''2'' # hex_digit (r mod 16) # u) = Some (r, u)"
    unfolding hex_literals using assms(4) by (subst hex4_digits) auto
  moreover have "take (snd (decode_rune s)) s = encode_rune r"
    by (rule decode_rune_separator [OF assms(3) [symmetric] assms(4,2,1)])
  ultimately show ?thesis
    using assms(4)
    by (auto simp: str_piece_escape parse_escape_def unicode_escape_plain high_surrogate_def low_surrogate_def)
qed

lemma escape_head_bad:
  "str_piece (backslash # CHR ''u'' # CHR ''f'' # CHR ''f'' # CHR ''f'' # CHR ''d'' # u)
    = Some (encode_rune rune_error, u)"
proof -
  have "hex4 (CHR ''f'' # CHR ''f'' # CHR ''f'' # CHR ''d'' # u) = Some (rune_error, u)"
    unfolding hex_literals by (subst hex4_digits) (auto simp: rune_error_def)
  then show ?thesis
    by (simp add: str_piece_escape parse_escape_def unicode_escape_plain
        high_surrogate_def low_surrogate_def rune_error_def)
qed

lemma escape_head_rune:
  assumes "s \<noteq> []" "0x80 \<le> byte (hd s)" "\<not> bad_head s"
  shows "str_piece (take (snd (decode_rune s)) s @ u) = Some (take (snd (decode_rune s)) s, u)"
proof -
  let ?h = "take (snd (decode_rune s)) s"
  have h: "?h \<noteq> []" "hd ?h = hd s" "length ?h = snd (decode_rune s)"
    using assms decode_rune_width [OF assms(1)] by auto
  have "hd s \<noteq> backslash" using assms(2) by auto
  with h assms show ?thesis
    by (simp add: str_piece_def decode_rune_take_append)
qed

definition head_text :: "string \<Rightarrow> string" where
  "head_text s = (if bad_head s then encode_rune rune_error else take (snd (decode_rune s)) s)"

lemma str_piece_escape_head:
  assumes "s \<noteq> []"
  shows "str_piece (escape_head s @ u) = Some (head_text s, u)"
proof (cases "byte (hd s) < 0x80")
  case True
  with assms obtain c cs where s: "s = c # cs" "byte c < 0x80" by (cases s) auto
  then show ?thesis by (simp add: escape_head_def head_text_def str_piece_escape_ascii)
next
  case False
  then have hi: "0x80 \<le> byte (hd s)" by simp
  show ?thesis
    using assms hi escape_head_bad [of u] escape_head_rune [OF assms hi, of u]
      escape_head_separator [OF assms hi refl, of u]
    by (auto simp: escape_head_def head_text_def bad_head_def rune_error_def)
qed

lemma escape_head_not_quote:
  assumes "s \<noteq> []"
  shows "escape_head s \<noteq> []" and "hd (escape_head s @ u) \<noteq> quote"
proof -
  have w: "0 < snd (decode_rune s)" using assms by simp
  show "escape_head s \<noteq> []"
    using assms w by (auto simp: escape_head_def escape_ascii_def)
  have "0x80 \<le> byte (hd s) \<Longrightarrow> hd s \<noteq> quote" by auto
  then show "hd (escape_head s @ u) \<noteq> quote"
    using assms w by (auto simp: escape_head_def escape_ascii_def not_less)
qed

lemma parse_str_escape: "parse_str (json_escape s @ quote # u) = Some (sanitize s, u)"
proof (induction s rule: json_escape.induct)
  case (1 s)
  show ?case
  proof (cases "s = []")
    case False
    let ?d = "drop (snd (decode_rune s)) s"
    have "parse_str (escape_head s @ json_escape ?d @ quote # u)
        = map_option (map_prod (append (head_text s)) id) (parse_str (json_escape ?d @ quote # u))"
      using escape_head_not_quote [OF False] str_piece_escape_head [OF False]
      by (subst parse_str.simps) simp
    with "1.IH" [OF False] show ?thesis
      using False by (simp add: json_escape.simps [of s] sanitize.simps [of s] head_text_def)
  qed (simp add: json_escape.simps parse_str.simps)
qed

text \<open>Integers: the literal ends where no digit, point or exponent follows.\<close>

definition ends_number :: "string \<Rightarrow> bool" where
  "ends_number u \<longleftrightarrow>
     u = [] \<or> (\<not> is_digit (hd u) \<and> hd u \<noteq> CHR ''.'' \<and> hd u \<noteq> CHR ''e'' \<and> hd u \<noteq> CHR ''E'')"

lemma zero_char: "CHR ''0'' = chr 0x30"
  by code_simp

lemma takeWhile_digits_show:
  assumes "ends_number u"
  shows "takeWhile is_digit (show_nat n @ u) = show_nat n"
    and "dropWhile is_digit (show_nat n @ u) = u"
  using assms show_nat_digits [of _ n]
  by (cases u; auto simp: ends_number_def takeWhile_append dropWhile_append)+

lemma number_int_show_nat:
  assumes "ends_number u"
  shows "number_int (show_nat n @ u) = Some (show_nat n, u)"
proof (cases "n = 0")
  case True
  then show ?thesis by (simp add: number_int_def show_nat_zero is_digit_def)
next
  case False
  then have "hd (show_nat n @ u) \<noteq> CHR ''0''" "is_digit (hd (show_nat n @ u))"
    using hd_show_nat_nonzero [of n] hd_show_nat [of n] by (auto simp: zero_char)
  then show ?thesis by (simp add: number_int_def takeWhile_digits_show [OF assms])
qed

lemma parse_number_show_int:
  assumes "ends_number u"
  shows "parse_number (show_int i @ u) = Some (JNum (show_int i), u)"
proof -
  have "hd (show_nat n @ u) \<noteq> CHR ''-''" for n
    using hd_show_nat [of n] by (metis hd_append2 not_digit_sign(1) show_nat_not_Nil)
  moreover have "number_frac u = Some ([], u)" "number_exp u = Some ([], u)"
    using assms by (auto simp: ends_number_def number_frac_def number_exp_def)
  ultimately show ?thesis
    using assms by (auto simp: parse_number_def show_int_def number_int_show_nat)
qed

lemma hd_show_int: "is_digit (hd (show_int i)) \<or> hd (show_int i) = CHR ''-''"
  by (simp add: show_int_def hd_show_nat)

lemma show_int_head:
  assumes "c = hd (show_int i @ u)"
  shows "\<not> is_ws c" "c \<noteq> brace_open" "c \<noteq> bracket_open" "c \<noteq> quote"
    "c \<noteq> CHR ''t''" "c \<noteq> CHR ''f''" "c \<noteq> CHR ''n''" "show_int i \<noteq> []"
proof -
  show ne: "show_int i \<noteq> []" by (simp add: show_int_def)
  have "is_digit c \<or> c = CHR ''-''" using assms ne hd_show_int [of i] by simp
  then have "0x30 \<le> byte c \<and> byte c \<le> 0x39 \<or> c = CHR ''-''" by (auto simp: is_digit_def)
  then show "\<not> is_ws c" "c \<noteq> brace_open" "c \<noteq> bracket_open" "c \<noteq> quote"
    "c \<noteq> CHR ''t''" "c \<noteq> CHR ''f''" "c \<noteq> CHR ''n''"
    by (auto simp: is_ws_def)
qed

text \<open>A written value reads back, with enough fuel for one value.\<close>

fun json_of :: "field_value \<Rightarrow> json" where
  "json_of (VStr s) = JStr (sanitize s)"
| "json_of (VInt i) = JNum (show_int i)"

lemma parse_value_marshal:
  assumes "ends_number u"
  shows "parse_value (Suc f) d (marshal_value v @ u) = Some (json_of v, u)"
proof (cases v)
  case (VStr s)
  then show ?thesis
    by (simp add: marshal_string_def is_ws_def parse_scalar_def parse_str_escape)
next
  case (VInt i)
  define t where "t = show_int i @ u"
  obtain c cs where t: "t = c # cs"
    using show_int_head(8) [of "hd t" i u] by (cases t) (auto simp: t_def)
  have h: "c = hd (show_int i @ u)" by (metis t t_def list.sel(1))
  note head = show_int_head [OF h]
  have sk: "skip_ws t = t" using head(1) by (simp add: t)
  have nostr: "\<not> prefix ''true'' t" "\<not> prefix ''false'' t" "\<not> prefix ''null'' t"
    using head(5-7) by (auto simp: t)
  have "parse_value (Suc f) d t = parse_scalar t"
    using head(2,3) by (simp add: sk) (simp add: t)
  also have "\<dots> = parse_number t"
    using nostr head(4) by (simp add: parse_scalar_def) (simp add: t)
  finally show ?thesis
    using parse_number_show_int [OF assms, of i] by (simp add: VInt t_def)
qed

lemma ends_number_Cons [simp]:
  "ends_number (comma # u)" "ends_number (brace_close # u)"
  by (simp_all add: ends_number_def is_digit_def)

lemma parse_members_one:
  assumes "ends_number u"
  shows "parse_members (Suc (Suc g)) d (marshal_string k @ colon # marshal_value v @ u) =
    (if starts brace_close (skip_ws u) then Some ([(sanitize k, json_of v)], tl (skip_ws u))
     else if starts comma (skip_ws u) then
       map_option (map_prod (Cons (sanitize k, json_of v)) id) (parse_members (Suc g) d (tl (skip_ws u)))
     else None)"
proof -
  let ?s = "marshal_string k @ colon # marshal_value v @ u"
  have q: "starts quote (skip_ws ?s)" and p: "parse_str (tl (skip_ws ?s)) = Some (sanitize k, colon # marshal_value v @ u)"
    by (simp_all add: marshal_string_def is_ws_def parse_str_escape)
  have c: "skip_ws (colon # marshal_value v @ u) = colon # marshal_value v @ u"
    by (simp add: is_ws_def)
  show ?thesis
    unfolding parse_members.simps(2) [of "Suc g" d ?s]
    by (simp only: q p c parse_value_marshal [OF assms] starts_Cons list.sel
        simp_thms if_False if_True option.case prod.case)
qed

lemma two_fuel: "Suc n < f \<Longrightarrow> \<exists>g. f = Suc (Suc g)"
  by (rule exI [of _ "f - 2"]) linarith

lemma parse_members_marshal:
  assumes "ms \<noteq> []" and "length ms < f"
  shows "parse_members f d (marshal_members ms @ brace_close # u)
    = Some (map (map_prod sanitize json_of) ms, u)"
  using assms
proof (induction ms arbitrary: f rule: marshal_members.induct)
  case (2 k v)
  obtain g where g: "f = Suc (Suc g)" using two_fuel "2.prems"(2) by auto
  have "skip_ws (brace_close # u) = brace_close # u" by (simp add: is_ws_def)
  then show ?case
    using parse_members_one [of "brace_close # u" g d k v] by (simp add: g)
next
  case (3 k v m ms)
  obtain g where g: "f = Suc (Suc g)" using two_fuel "3.prems"(2) by auto
  let ?u = "marshal_members (m # ms) @ brace_close # u"
  have IH: "parse_members (Suc g) d ?u = Some (map (map_prod sanitize json_of) (m # ms), u)"
    using "3.IH" [of "Suc g"] "3.prems" g by (simp del: parse_members.simps)
  have sk: "skip_ws (comma # ?u) = comma # ?u" by (simp add: is_ws_def)
  have "parse_members f d (marshal_string k @ colon # marshal_value v @ comma # ?u)
      = Some (map (map_prod sanitize json_of) ((k, v) # m # ms), u)"
    using parse_members_one [of "comma # ?u" g d k v]
    by (simp only: g sk IH starts_Cons list.sel ends_number_Cons simp_thms option.map
        map_prod_simp id_apply list.map) simp
  then show ?case by simp
qed simp

lemma marshal_members_length: "length ms \<le> length (marshal_members ms)"
  by (induction ms rule: marshal_members.induct) auto

theorem decoder_next_marshal:
  assumes "ms \<noteq> []"
  shows "decoder_next (marshal_struct ms @ u) = Some (JObj (map (map_prod sanitize json_of) ms), u)"
proof -
  let ?s = "marshal_struct ms @ u"
  obtain k v r where ms: "ms = (k, v) # r" using assms by (cases ms) auto
  have "starts quote (skip_ws (marshal_members ms @ x))" for x
    by (cases r) (auto simp: ms marshal_string_def is_ws_def)
  then have ne: "\<not> starts brace_close (skip_ws (marshal_members ms @ x))" for x
    by (auto simp: starts_def)
  have "length ms < 2 * length ?s"
    using marshal_members_length [of ms] by (simp add: marshal_struct_def)
  then have "parse_members (2 * length ?s) 9999 (marshal_members ms @ brace_close # u)
      = Some (map (map_prod sanitize json_of) ms, u)"
    by (rule parse_members_marshal [OF assms])
  then show ?thesis
    using ne unfolding decoder_next_def
    by (simp add: marshal_struct_def is_ws_def)
qed

corollary json_parse_marshal:
  "ms \<noteq> [] \<Longrightarrow> json_parse (marshal_struct ms) = Some (JObj (map (map_prod sanitize json_of) ms))"
  using decoder_next_marshal [of ms "[]"] by (auto simp: json_parse_decoder decoder_eof_def)

section \<open>Facts about decoded structs\<close>

lemma utf8_valid_ascii: "list_all (\<lambda>c. byte c < 0x80) s \<Longrightarrow> utf8_valid s"
proof (induction s)
  case (Cons c cs)
  then show ?case by (simp add: utf8_valid.simps [of "c # cs"])
qed simp

lemma sanitize_ascii: "list_all (\<lambda>c. byte c < 0x80) s \<Longrightarrow> sanitize s = s"
  by (simp add: sanitize_valid utf8_valid_ascii)

text \<open>A field holds a value of its kind; an integer one is in the range of \<open>int\<close>.\<close>

definition field_typed :: "field_kind \<Rightarrow> field_value \<Rightarrow> bool" where
  "field_typed kd v =
     (case kd of FString \<Rightarrow> (\<exists>s. v = VStr s) | FInt \<Rightarrow> (\<exists>i. v = VInt i \<and> in_int64 i))"

definition struct_typed :: "field_spec \<Rightarrow> struct_value \<Rightarrow> bool" where
  "struct_typed spec vals \<longleftrightarrow> (\<forall>k kd. map_of spec k = Some kd \<longrightarrow> field_typed kd (vals k))"

lemma zero_struct_typed: "struct_typed spec (zero_struct spec)"
proof -
  have "field_typed kd (zero_value kd)" for kd
    by (cases kd) (auto simp: field_typed_def in_int64_def min_int64_def max_int64_def)
  then show ?thesis by (simp add: struct_typed_def zero_struct_def)
qed

lemma decode_field_typed:
  "decode_field kd v old = Some x \<Longrightarrow> field_typed kd old \<Longrightarrow> field_typed kd x"
  by (induction kd v old rule: decode_field.induct) (auto simp: field_typed_def dest: parse_int_range)

lemma find_field_map_of:
  assumes "distinct (map fst spec)" and "find_field spec k = Some (n, kd)"
  shows "map_of spec n = Some kd"
proof (cases "map_of spec k")
  case None
  with assms(2) have "(n, kd) \<in> set spec"
    by (auto simp: find_field_def find_Some_iff) (metis nth_mem)
  with assms(1) show ?thesis by simp
qed (use assms(2) in \<open>auto simp: find_field_def\<close>)

lemma decode_members_typed:
  "distinct (map fst spec) \<Longrightarrow> struct_typed spec (fst acc) \<Longrightarrow>
   struct_typed spec (fst (decode_members strict spec ms acc))"
proof (induction strict spec ms acc rule: decode_members.induct)
  case (2 strict spec k v ms vals err)
  show ?case
  proof (cases "find_field spec k")
    case None
    with 2 show ?thesis by simp
  next
    case (Some nk)
    obtain n kd where nk: "nk = (n, kd)" by (cases nk)
    have kd: "map_of spec n = Some kd"
      by (rule find_field_map_of [OF "2.prems"(1) Some [unfolded nk]])
    show ?thesis
    proof (cases "decode_field kd v (vals n)")
      case None
      with 2 Some nk show ?thesis by simp
    next
      case x: (Some x)
      have "field_typed kd x"
        using decode_field_typed [OF x] "2.prems"(2) kd by (simp add: struct_typed_def)
      then have "struct_typed spec (vals(n := x))"
        using "2.prems"(2) kd by (simp add: struct_typed_def)
      with "2.IH"(3) [OF Some nk [symmetric] x] "2.prems"(1) Some nk x show ?thesis
        by (simp del: fun_upd_apply)
    qed
  qed
qed simp

lemma decode_struct_typed:
  assumes "distinct (map fst spec)" and "decode_struct strict spec v = Some vals"
  shows "struct_typed spec vals"
proof (cases v)
  case (JObj ms)
  with assms(2) have "vals = fst (decode_members strict spec ms (zero_struct spec, False))"
    by (auto simp: Let_def split: prod.splits if_splits)
  then show ?thesis
    using decode_members_typed [OF assms(1), of "(zero_struct spec, False)" strict ms]
    by (simp add: zero_struct_typed)
qed (use assms(2) zero_struct_typed in auto)

text \<open>A strict decode accepts known members only.\<close>

lemma decode_members_err: "snd acc \<Longrightarrow> snd (decode_members strict spec ms acc)"
  by (induction strict spec ms acc rule: decode_members.induct) (auto split: option.splits)

lemma decode_members_known:
  "\<not> snd (decode_members True spec ms acc) \<Longrightarrow> (k, v) \<in> set ms \<Longrightarrow> find_field spec k \<noteq> None"
proof (induction True spec ms acc rule: decode_members.induct)
  case (2 spec k' v' ms vals err)
  then show ?case
    by (auto simp: decode_members_err split: option.splits)
qed simp

lemma decode_struct_known:
  "decode_struct True spec (JObj ms) = Some vals \<Longrightarrow> (k, v) \<in> set ms \<Longrightarrow> find_field spec k \<noteq> None"
  using decode_members_known [of spec ms "(zero_struct spec, False)" k v]
  by (auto simp: Let_def split: prod.splits if_splits)

end
