(* ===== verification/Protocol_Model.thy ===== *)
theory Protocol_Model
  imports Go_Json
begin

text \<open>
  The browser protocol, \<^verbatim>\<open>internal/websocket/protocol.go\<close> and the data types of
  \<^verbatim>\<open>internal/websocket/interfaces.go\<close>: frames, control messages, the parser of client
  messages with its error codes, and the constructors of server messages. The properties: what
  an accepted message guarantees, which codes an error carries, that the parser accepts every
  canonical client message and returns its content, that messages of the server are refused
  when a client sends them, and that terminal output reaches the browser byte for byte.
\<close>

section \<open>Data\<close>

datatype frame_type = TextFrame | BinaryFrame

record message =
  msg_type :: frame_type
  msg_data :: string

datatype message_type =
    MessageTypeAuthorize
  | MessageTypeAuthorized
  | MessageTypeInput
  | MessageTypeOutput
  | MessageTypeResize
  | MessageTypeError
  | MessageTypeClose

fun message_type_string :: "message_type \<Rightarrow> string" where
  "message_type_string MessageTypeAuthorize = ''authorize''"
| "message_type_string MessageTypeAuthorized = ''authorized''"
| "message_type_string MessageTypeInput = ''input''"
| "message_type_string MessageTypeOutput = ''output''"
| "message_type_string MessageTypeResize = ''resize''"
| "message_type_string MessageTypeError = ''error''"
| "message_type_string MessageTypeClose = ''close''"

record protocol_error =
  pe_code :: string
  pe_message :: string

definition protocol_error_text :: "protocol_error \<Rightarrow> string" where
  "protocol_error_text e = pe_code e @ '': '' @ pe_message e"

text \<open>\<open>cm_binary\<close> is the \<open>BinaryData\<close> slice; \<open>None\<close> is nil.\<close>

record client_message =
  cm_type :: message_type
  cm_token :: string
  cm_input :: string
  cm_binary :: "string option"
  cm_rows :: int
  cm_columns :: int
  cm_reason :: string

definition client_message_of :: "message_type \<Rightarrow> client_message" where
  "client_message_of t =
     \<lparr>cm_type = t, cm_token = [], cm_input = [], cm_binary = None, cm_rows = 0, cm_columns = 0,
      cm_reason = []\<rparr>"

text \<open>The JSON structs, by their tags.\<close>

definition control_spec :: field_spec where
  "control_spec = [(''type'', FString)]"

definition input_spec :: field_spec where
  "input_spec = [(''type'', FString), (''data'', FString)]"

definition authorize_spec :: field_spec where
  "authorize_spec = [(''type'', FString), (''token'', FString)]"

definition output_spec :: field_spec where
  "output_spec = [(''type'', FString), (''data'', FString)]"

definition resize_spec :: field_spec where
  "resize_spec = [(''type'', FString), (''rows'', FInt), (''columns'', FInt)]"

definition error_spec :: field_spec where
  "error_spec = [(''type'', FString), (''code'', FString), (''message'', FString)]"

definition close_spec :: field_spec where
  "close_spec = [(''type'', FString), (''reason'', FString)]"

lemmas spec_defs =
  control_spec_def input_spec_def authorize_spec_def output_spec_def resize_spec_def
  error_spec_def close_spec_def

section \<open>Parsing\<close>

text \<open>\<open>decodeStrict\<close>: one value, no unknown members, and nothing but white space after it.\<close>

definition decode_strict :: "field_spec \<Rightarrow> string \<Rightarrow> struct_value option" where
  "decode_strict spec data =
     (case decoder_next data of
        None \<Rightarrow> None
      | Some (v, rest) \<Rightarrow>
          (case decode_struct True spec v of
             None \<Rightarrow> None
           | Some vals \<Rightarrow> if decoder_eof rest then Some vals else None))"

definition protocol_failure :: "string \<Rightarrow> string \<Rightarrow> (protocol_error, client_message) result" where
  "protocol_failure code text = Err \<lparr>pe_code = code, pe_message = text\<rparr>"

definition parse_client_message :: "message \<Rightarrow> (protocol_error, client_message) result" where
  "parse_client_message m =
     (if msg_type m = BinaryFrame then
        Ok ((client_message_of MessageTypeInput)
              \<lparr>cm_binary := (if msg_data m = [] then None else Some (msg_data m))\<rparr>)
      else case unmarshal control_spec (msg_data m) of
        None \<Rightarrow> protocol_failure ''invalid_json'' ''control message must be valid JSON''
      | Some base \<Rightarrow>
         (let kind = trim_space (str_of (base ''type'')) in
          if kind = ''authorize'' then
            (case decode_strict authorize_spec (msg_data m) of
               None \<Rightarrow> protocol_failure ''invalid_authorize'' ''authorize message is malformed''
             | Some p \<Rightarrow>
                 (let token = trim_space (str_of (p ''token'')) in
                  if token = [] then
                    protocol_failure ''invalid_authorize'' ''authorize token must not be empty''
                  else Ok ((client_message_of MessageTypeAuthorize)\<lparr>cm_token := token\<rparr>)))
          else if kind = ''input'' then
            (case decode_strict input_spec (msg_data m) of
               None \<Rightarrow> protocol_failure ''invalid_input'' ''input message is malformed''
             | Some p \<Rightarrow>
                 Ok ((client_message_of MessageTypeInput)\<lparr>cm_input := str_of (p ''data'')\<rparr>))
          else if kind = ''resize'' then
            (case decode_strict resize_spec (msg_data m) of
               None \<Rightarrow> protocol_failure ''invalid_resize'' ''resize message is malformed''
             | Some p \<Rightarrow>
                 if int_of (p ''rows'') \<le> 0 \<or> int_of (p ''columns'') \<le> 0 then
                   protocol_failure ''invalid_resize''
                     ''resize rows and columns must be greater than zero''
                 else Ok ((client_message_of MessageTypeResize)
                        \<lparr>cm_rows := int_of (p ''rows''), cm_columns := int_of (p ''columns'')\<rparr>))
          else if kind = ''close'' then
            (case decode_strict close_spec (msg_data m) of
               None \<Rightarrow> protocol_failure ''invalid_close'' ''close message is malformed''
             | Some p \<Rightarrow>
                 Ok ((client_message_of MessageTypeClose)
                   \<lparr>cm_reason := trim_space (str_of (p ''reason''))\<rparr>))
          else if kind = ''output'' then
            protocol_failure ''unexpected_output'' ''output messages are server-to-client only''
          else if kind = ''error'' then
            protocol_failure ''unexpected_error'' ''error messages are server-to-client only''
          else if kind = ''authorized'' then
            protocol_failure ''unexpected_authorized''
              ''authorized messages are server-to-client only''
          else
            protocol_failure ''unknown_message_type'' ''unsupported control message type''))"

section \<open>Server messages\<close>

definition text_message :: "(string \<times> field_value) list \<Rightarrow> message" where
  "text_message ms = \<lparr>msg_type = TextFrame, msg_data = marshal_struct ms\<rparr>"

definition new_server_authorized :: message where
  "new_server_authorized =
     text_message [(''type'', VStr (message_type_string MessageTypeAuthorized))]"

definition new_server_output :: "string \<Rightarrow> message" where
  "new_server_output data =
     (if utf8_valid data then
        text_message [(''type'', VStr (message_type_string MessageTypeOutput)), (''data'', VStr data)]
      else \<lparr>msg_type = BinaryFrame, msg_data = data\<rparr>)"

definition new_server_error :: "string \<Rightarrow> string \<Rightarrow> message" where
  "new_server_error code text =
     text_message [(''type'', VStr (message_type_string MessageTypeError)),
                   (''code'', VStr code), (''message'', VStr text)]"

text \<open>The tag of \<open>reason\<close> has \<open>omitempty\<close>.\<close>

definition new_server_close :: "string \<Rightarrow> message" where
  "new_server_close reason =
     text_message ((''type'', VStr (message_type_string MessageTypeClose))
       # (if reason = [] then [] else [(''reason'', VStr reason)]))"

lemmas server_message_defs =
  new_server_authorized_def new_server_output_def new_server_error_def new_server_close_def
  text_message_def

section \<open>What an accepted message guarantees\<close>

definition client_message_ok :: "client_message \<Rightarrow> bool" where
  "client_message_ok c =
     (case cm_type c of
        MessageTypeAuthorize \<Rightarrow> cm_token c \<noteq> [] \<and> trim_space (cm_token c) = cm_token c
      | MessageTypeInput \<Rightarrow> cm_binary c \<noteq> Some []
      | MessageTypeResize \<Rightarrow>
          0 < cm_rows c \<and> cm_rows c \<le> max_int64 \<and> 0 < cm_columns c \<and> cm_columns c \<le> max_int64
      | MessageTypeClose \<Rightarrow> trim_space (cm_reason c) = cm_reason c
      | _ \<Rightarrow> False)"

definition client_error_codes :: "string list" where
  "client_error_codes =
     [''invalid_json'', ''invalid_authorize'', ''invalid_input'', ''invalid_resize'',
      ''invalid_close'', ''unexpected_output'', ''unexpected_error'', ''unexpected_authorized'',
      ''unknown_message_type'']"

lemma decode_strict_typed:
  assumes "decode_strict spec data = Some vals" and "distinct (map fst spec)"
  shows "struct_typed spec vals"
  using assms
  by (auto simp: decode_strict_def intro: decode_struct_typed split: option.splits if_splits)

lemma decode_strict_int:
  assumes "decode_strict spec data = Some vals" and "distinct (map fst spec)"
    and "map_of spec k = Some FInt"
  shows "in_int64 (int_of (vals k))"
  using decode_strict_typed [OF assms(1,2)] assms(3)
  by (fastforce simp: struct_typed_def field_typed_def)

text \<open>Behind the base decode the check for trailing content of \<open>decodeStrict\<close> cannot fail.\<close>

lemma decode_strict_after_base:
  assumes "unmarshal spec' data = Some base"
  shows "decode_strict spec data = Option.bind (json_parse data) (decode_struct True spec)"
proof -
  obtain v where "json_parse data = Some v"
    using assms by (auto simp: unmarshal_def bind_eq_Some_conv)
  moreover from this obtain r where "decoder_next data = Some (v, r)" "decoder_eof r"
    by (auto simp: json_parse_decoder)
  ultimately show ?thesis by (auto simp: decode_strict_def split: option.splits)
qed

section \<open>Canonical messages\<close>

text \<open>The members of the canonical texts go to the fields of their names.\<close>

lemma find_field_canonical [text_simps]:
  "find_field control_spec ''type'' = Some (''type'', FString)"
  "find_field control_spec ''token'' = None"
  "find_field control_spec ''data'' = None"
  "find_field control_spec ''rows'' = None"
  "find_field control_spec ''columns'' = None"
  "find_field control_spec ''reason'' = None"
  "find_field control_spec ''code'' = None"
  "find_field control_spec ''message'' = None"
  "find_field authorize_spec ''type'' = Some (''type'', FString)"
  "find_field authorize_spec ''token'' = Some (''token'', FString)"
  "find_field input_spec ''type'' = Some (''type'', FString)"
  "find_field input_spec ''data'' = Some (''data'', FString)"
  "find_field resize_spec ''type'' = Some (''type'', FString)"
  "find_field resize_spec ''rows'' = Some (''rows'', FInt)"
  "find_field resize_spec ''columns'' = Some (''columns'', FInt)"
  "find_field close_spec ''type'' = Some (''type'', FString)"
  "find_field close_spec ''reason'' = Some (''reason'', FString)"
  "find_field output_spec ''type'' = Some (''type'', FString)"
  "find_field output_spec ''data'' = Some (''data'', FString)"
  "find_field error_spec ''type'' = Some (''type'', FString)"
  "find_field error_spec ''code'' = Some (''code'', FString)"
  "find_field error_spec ''message'' = Some (''message'', FString)"
  by code_simp+

lemma sanitize_words [text_simps]:
  "sanitize ''type'' = ''type''"
  "sanitize ''token'' = ''token''"
  "sanitize ''data'' = ''data''"
  "sanitize ''rows'' = ''rows''"
  "sanitize ''columns'' = ''columns''"
  "sanitize ''reason'' = ''reason''"
  "sanitize ''code'' = ''code''"
  "sanitize ''message'' = ''message''"
  "sanitize ''authorize'' = ''authorize''"
  "sanitize ''authorized'' = ''authorized''"
  "sanitize ''input'' = ''input''"
  "sanitize ''output'' = ''output''"
  "sanitize ''resize'' = ''resize''"
  "sanitize ''error'' = ''error''"
  "sanitize ''close'' = ''close''"
  by (rule sanitize_ascii, simp)+

lemma trim_words [text_simps]:
  "trim_space ''authorize'' = ''authorize''"
  "trim_space ''authorized'' = ''authorized''"
  "trim_space ''input'' = ''input''"
  "trim_space ''output'' = ''output''"
  "trim_space ''resize'' = ''resize''"
  "trim_space ''error'' = ''error''"
  "trim_space ''close'' = ''close''"
  by (rule trim_space_ascii_word, simp add: ascii_word_def)+

lemma unmarshal_marshal:
  "ms \<noteq> [] \<Longrightarrow> unmarshal spec (marshal_struct ms)
     = decode_struct False spec (JObj (map (map_prod sanitize json_of) ms))"
  by (simp add: unmarshal_def json_parse_marshal)

lemma decode_strict_marshal:
  assumes "ms \<noteq> []"
  shows "decode_strict spec (marshal_struct ms)
     = decode_struct True spec (JObj (map (map_prod sanitize json_of) ms))"
  using decoder_next_marshal [OF assms, of "[]"]
  by (auto simp: decode_strict_def decoder_eof_def split: option.splits)

lemma decode_struct_JObj:
  "decode_struct strict spec (JObj ms) =
     (if snd (decode_members strict spec ms (zero_struct spec, False)) then None
      else Some (fst (decode_members strict spec ms (zero_struct spec, False))))"
  by (simp add: Let_def split: prod.splits)

lemmas canonical_simps =
  text_simps unmarshal_marshal decode_strict_marshal decode_struct_JObj zero_struct_def
  parse_client_message_def text_message_def Let_def protocol_failure_def

lemma parse_authorize:
  "parse_client_message (text_message [(''type'', VStr ''authorize''), (''token'', VStr token)]) =
     (let t = trim_space (sanitize token)
      in if t = [] then protocol_failure ''invalid_authorize'' ''authorize token must not be empty''
         else Ok ((client_message_of MessageTypeAuthorize)\<lparr>cm_token := t\<rparr>))"
  by (simp add: canonical_simps del: decode_struct.simps)

lemma parse_input:
  "parse_client_message (text_message [(''type'', VStr ''input''), (''data'', VStr d)]) =
     Ok ((client_message_of MessageTypeInput)\<lparr>cm_input := sanitize d\<rparr>)"
  by (simp add: canonical_simps del: decode_struct.simps)

lemma parse_resize:
  assumes "in_int64 rows" and "in_int64 columns"
  shows "parse_client_message (text_message
      [(''type'', VStr ''resize''), (''rows'', VInt rows), (''columns'', VInt columns)]) =
     (if rows \<le> 0 \<or> columns \<le> 0
      then protocol_failure ''invalid_resize'' ''resize rows and columns must be greater than zero''
      else Ok ((client_message_of MessageTypeResize)\<lparr>cm_rows := rows, cm_columns := columns\<rparr>))"
  using assms by (simp add: canonical_simps parse_int_show_int del: decode_struct.simps)

lemma close_reason_kind: "map_of close_spec ''reason'' = Some FString"
  by (simp add: close_spec_def)

lemma parse_close:
  "parse_client_message (new_server_close reason) =
     Ok ((client_message_of MessageTypeClose)\<lparr>cm_reason := trim_space (sanitize reason)\<rparr>)"
  by (cases "reason = []")
    (simp_all add: canonical_simps new_server_close_def client_message_of_def
       close_reason_kind del: decode_struct.simps)

lemma parsed_message_ok:
  assumes "parse_client_message m = Ok c"
  shows "client_message_ok c"
  using assms decode_strict_int [of resize_spec "msg_data m" _ "''rows''"]
    decode_strict_int [of resize_spec "msg_data m" _ "''columns''"]
  by (auto simp: parse_client_message_def protocol_failure_def client_message_ok_def
      client_message_of_def Let_def resize_spec_def in_int64_def split: if_splits option.splits)

lemma refused_message:
  assumes "parse_client_message m = Err e"
  shows "msg_type m = TextFrame \<and> pe_code e \<in> set client_error_codes"
  using assms
  by (cases "msg_type m")
    (auto simp: parse_client_message_def protocol_failure_def client_error_codes_def Let_def
      split: if_splits option.splits)

text \<open>
  Property C22: every message of a client is either accepted, and then satisfies what the session
  relies on (a trimmed token that is not empty, a positive terminal size that fits an
  \<^verbatim>\<open>int\<close>, a trimmed reason), or refused, and then it was a text frame and the error carries one of
  nine codes. Nothing the client sends has a third outcome.
\<close>

theorem parse_client_message_outcome:
  "(case parse_client_message m of
      Inl e \<Rightarrow> msg_type m = TextFrame \<and> pe_code e \<in> set client_error_codes
    | Inr c \<Rightarrow> client_message_ok c)"
  using parsed_message_ok [of m] refused_message [of m] by (simp split: sum.split)

text \<open>
  Property C23: the canonical messages of a client are accepted with exactly their content: a token
  without the white space around it, input byte for byte, a positive size, a trimmed reason; a
  blank token and a size that is not positive are refused.
\<close>

theorem client_messages_round_trip:
  assumes "utf8_valid d" and "in_int64 rows" and "in_int64 columns"
  shows "parse_client_message (text_message [(''type'', VStr ''authorize''), (''token'', VStr d)]) =
      (if trim_space d = []
       then protocol_failure ''invalid_authorize'' ''authorize token must not be empty''
       else Ok ((client_message_of MessageTypeAuthorize)\<lparr>cm_token := trim_space d\<rparr>)) \<and>
    parse_client_message (text_message [(''type'', VStr ''input''), (''data'', VStr d)]) =
      Ok ((client_message_of MessageTypeInput)\<lparr>cm_input := d\<rparr>) \<and>
    parse_client_message (text_message
        [(''type'', VStr ''resize''), (''rows'', VInt rows), (''columns'', VInt columns)]) =
      (if rows \<le> 0 \<or> columns \<le> 0
       then protocol_failure ''invalid_resize'' ''resize rows and columns must be greater than zero''
       else Ok ((client_message_of MessageTypeResize)\<lparr>cm_rows := rows, cm_columns := columns\<rparr>)) \<and>
    parse_client_message (new_server_close d) =
      Ok ((client_message_of MessageTypeClose)\<lparr>cm_reason := trim_space d\<rparr>)"
  by (simp add: parse_authorize parse_input parse_resize parse_close sanitize_valid assms)

theorem client_messages_round_trip_witness:
  "parse_client_message (text_message [(''type'', VStr ''input''), (''data'', VStr [chr 0x22, chr 10])]) =
     Ok ((client_message_of MessageTypeInput)\<lparr>cm_input := [chr 0x22, chr 10]\<rparr>)"
proof -
  have "utf8_valid [chr 0x22, chr 10]" and "in_int64 24" and "in_int64 80" by code_simp+
  from client_messages_round_trip [OF this] show ?thesis by simp
qed

text \<open>
  Property C24: every chunk of terminal output reaches the browser byte for byte, as the data of a
  text frame when it is valid UTF-8 and as a binary frame otherwise.
\<close>

theorem output_round_trip:
  "(if utf8_valid d
    then msg_type (new_server_output d) = TextFrame
         \<and> map_option (\<lambda>p. (str_of (p ''type''), str_of (p ''data'')))
             (unmarshal output_spec (msg_data (new_server_output d))) = Some (''output'', d)
    else new_server_output d = \<lparr>msg_type = BinaryFrame, msg_data = d\<rparr>)"
  by (simp add: new_server_output_def canonical_simps sanitize_valid del: decode_struct.simps)

text \<open>
  The messages of the server are refused with their own codes when a client sends
  them; binary output reads as binary input.
\<close>

theorem server_messages_refused:
  "parse_client_message new_server_authorized =
     protocol_failure ''unexpected_authorized'' ''authorized messages are server-to-client only'' \<and>
   parse_client_message (new_server_error code text) =
     protocol_failure ''unexpected_error'' ''error messages are server-to-client only'' \<and>
   parse_client_message (new_server_output d) =
     (if utf8_valid d
      then protocol_failure ''unexpected_output'' ''output messages are server-to-client only''
      else Ok ((client_message_of MessageTypeInput)\<lparr>cm_binary := Some d\<rparr>))"
  by (auto simp: server_message_defs canonical_simps simp del: decode_struct.simps)

end
