(* ===== verification/Conn_Model.thy ===== *)
theory Conn_Model
  imports Protocol_Model
begin

text \<open>
  The browser connection over gorilla's WebSocket, \<^verbatim>\<open>internal/websocket/conn.go\<close>: the upgrader's
  settings, and each method of \<^verbatim>\<open>GorillaConn\<close> as the list of calls it makes on the gorilla
  connection together with its result. What the gorilla calls return is an argument, a
  \<open>transport\<close>; \<^verbatim>\<open>FormatCloseMessage\<close> is an argument too. The write mutex only serialises the
  writers and has no counterpart. The properties: deadlines are cleared on every path that set
  one, the keepalive deadline survives the reads of a session, errors are classified as the
  callers expect, and closing always closes the TCP connection, exactly once.
\<close>

section \<open>Data\<close>

type_synonym time = int

text \<open>The errors of the connection, by what the callers can tell apart.\<close>

datatype conn_error =
    CtxCanceled
  | CtxDeadlineExceeded
  | NetTimeout
  | PeerClose int
  | ErrCloseSent
  | ErrReadLimit
  | ProtocolErr protocol_error
  | OtherError string

text \<open>A context: its deadline, and its error as it is when asked first and after the call.\<close>

record conn_context =
  ctx_deadline :: "time option"
  ctx_err :: "conn_error option"
  ctx_err_after :: "conn_error option"

definition background :: conn_context where
  "background = \<lparr>ctx_deadline = None, ctx_err = None, ctx_err_after = None\<rparr>"

definition with_timeout :: "time \<Rightarrow> int \<Rightarrow> conn_context \<Rightarrow> conn_context" where
  "with_timeout now d c =
     c\<lparr>ctx_deadline := Some (case ctx_deadline c of None \<Rightarrow> now + d | Some t \<Rightarrow> min t (now + d))\<rparr>"

text \<open>The calls on the gorilla connection; a deadline of \<open>None\<close> is the zero time, no deadline.\<close>

datatype conn_call =
    SetReadLimit int
  | SetReadDeadline "time option"
  | SetWriteDeadline "time option"
  | SetPongHandler int
  | ReadFrame
  | WriteFrame int string
  | WriteControl int string time
  | CloseTcp

record transport =
  tr_set_read_deadline :: "conn_error option"
  tr_set_write_deadline :: "conn_error option"
  tr_read :: "(conn_error, int \<times> string) result"
  tr_write :: "conn_error option"
  tr_control :: "int \<Rightarrow> string \<Rightarrow> conn_error option"
  tr_close :: "conn_error option"

section \<open>The upgrader\<close>

definition text_message_type :: int where "text_message_type = 1"
definition binary_message_type :: int where "binary_message_type = 2"
definition close_message_type :: int where "close_message_type = 8"
definition ping_message_type :: int where "ping_message_type = 9"

definition default_write_timeout :: int where
  "default_write_timeout = 5 * second"

record upgrader_config =
  uc_max_message_bytes :: int
  uc_write_timeout :: int

record upgrader =
  up_max_message_bytes :: int
  up_write_timeout :: int
  up_read_buffer_size :: int
  up_write_buffer_size :: int
  up_check_origin :: "string \<Rightarrow> bool"

record gorilla_conn =
  gc_write_timeout :: int

definition new_upgrader :: "upgrader_config \<Rightarrow> upgrader" where
  "new_upgrader c =
     \<lparr>up_max_message_bytes =
        (if uc_max_message_bytes c \<le> 0 then 64 * 1024 else uc_max_message_bytes c),
      up_write_timeout =
        (if uc_write_timeout c \<le> 0 then default_write_timeout else uc_write_timeout c),
      up_read_buffer_size = 1024,
      up_write_buffer_size = 1024,
      up_check_origin = (\<lambda>r. True)\<rparr>"

text \<open>\<open>failed\<close> is the error of gorilla's own upgrade.\<close>

definition upgrade ::
  "upgrader \<Rightarrow> conn_error option \<Rightarrow> conn_call list \<times> (conn_error, gorilla_conn) result" where
  "upgrade u failed =
     (case failed of
        Some e \<Rightarrow> ([], Err e)
      | None \<Rightarrow> ([SetReadLimit (up_max_message_bytes u)],
                 Ok \<lparr>gc_write_timeout = up_write_timeout u\<rparr>))"

section \<open>Error classification\<close>

fun is_canceled :: "conn_error \<Rightarrow> bool" where
  "is_canceled CtxCanceled = True"
| "is_canceled _ = False"

fun is_deadline_exceeded :: "conn_error \<Rightarrow> bool" where
  "is_deadline_exceeded CtxDeadlineExceeded = True"
| "is_deadline_exceeded _ = False"

text \<open>A \<^verbatim>\<open>net.Error\<close> whose \<^verbatim>\<open>Timeout\<close> is true; \<^verbatim>\<open>context.DeadlineExceeded\<close> is one.\<close>

fun is_net_timeout :: "conn_error \<Rightarrow> bool" where
  "is_net_timeout CtxDeadlineExceeded = True"
| "is_net_timeout NetTimeout = True"
| "is_net_timeout _ = False"

fun is_peer_closed :: "conn_error \<Rightarrow> bool" where
  "is_peer_closed (PeerClose code) = (code \<in> {1000, 1001, 1005, 1006})"
| "is_peer_closed ErrCloseSent = True"
| "is_peer_closed _ = False"

section \<open>Methods\<close>

definition message_too_large :: protocol_error where
  "message_too_large =
     \<lparr>pe_code = ''message_too_large'',
      pe_message = ''websocket message exceeded configured size limit''\<rparr>"

definition unsupported_frame :: protocol_error where
  "unsupported_frame =
     \<lparr>pe_code = ''unsupported_frame'', pe_message = ''unsupported websocket frame type''\<rparr>"

text \<open>What a frame or an error of gorilla becomes.\<close>

definition read_outcome ::
  "conn_context \<Rightarrow> (conn_error, int \<times> string) result \<Rightarrow> (conn_error, message) result" where
  "read_outcome c r =
     (case r of
        Inl e \<Rightarrow>
          if e = ErrReadLimit then Err (ProtocolErr message_too_large)
          else (case ctx_err_after c of
                  Some ce \<Rightarrow> if is_net_timeout e then Err ce else Err e
                | None \<Rightarrow> Err e)
      | Inr (ty, payload) \<Rightarrow>
          if ty = text_message_type then Ok \<lparr>msg_type = TextFrame, msg_data = payload\<rparr>
          else if ty = binary_message_type then Ok \<lparr>msg_type = BinaryFrame, msg_data = payload\<rparr>
          else Err (ProtocolErr unsupported_frame))"

definition conn_read_message ::
  "transport \<Rightarrow> conn_context \<Rightarrow> conn_call list \<times> (conn_error, message) result" where
  "conn_read_message t c =
     (case ctx_err c of
        Some e \<Rightarrow> ([], Err e)
      | None \<Rightarrow>
          (case ctx_deadline c of
             None \<Rightarrow> ([ReadFrame], read_outcome c (tr_read t))
           | Some d \<Rightarrow>
               (case tr_set_read_deadline t of
                  Some e \<Rightarrow> ([SetReadDeadline (Some d)], Err e)
                | None \<Rightarrow> ([SetReadDeadline (Some d), ReadFrame, SetReadDeadline None],
                          read_outcome c (tr_read t)))))"

definition to_gorilla_type :: "frame_type \<Rightarrow> int" where
  "to_gorilla_type f = (if f = BinaryFrame then binary_message_type else text_message_type)"

definition write_deadline :: "gorilla_conn \<Rightarrow> time \<Rightarrow> conn_context \<Rightarrow> time" where
  "write_deadline g now c =
     (case ctx_deadline (with_timeout now (gc_write_timeout g) c) of
        Some d \<Rightarrow> d
      | None \<Rightarrow> now + gc_write_timeout g)"

definition conn_write_message ::
  "gorilla_conn \<Rightarrow> transport \<Rightarrow> time \<Rightarrow> conn_context \<Rightarrow> message \<Rightarrow> conn_call list \<times> conn_error option" where
  "conn_write_message g t now c m =
     (let d = write_deadline g now c in
      case tr_set_write_deadline t of
        Some e \<Rightarrow> ([SetWriteDeadline (Some d)], Some e)
      | None \<Rightarrow> ([SetWriteDeadline (Some d), WriteFrame (to_gorilla_type (msg_type m)) (msg_data m),
                 SetWriteDeadline None],
                tr_write t))"

definition write_ping ::
  "gorilla_conn \<Rightarrow> transport \<Rightarrow> time \<Rightarrow> conn_context \<Rightarrow> conn_call list \<times> conn_error option" where
  "write_ping g t now c =
     ([WriteControl ping_message_type [] (write_deadline g now c)], tr_control t ping_message_type [])"

definition configure_keepalive ::
  "transport \<Rightarrow> time \<Rightarrow> int \<Rightarrow> conn_call list \<times> conn_error option" where
  "configure_keepalive t now timeout =
     (if timeout \<le> 0 then ([], None)
      else case tr_set_read_deadline t of
        Some e \<Rightarrow> ([SetReadDeadline (Some (now + timeout))], Some e)
      | None \<Rightarrow> ([SetReadDeadline (Some (now + timeout)), SetPongHandler timeout], None))"

text \<open>The installed handler, run by a read when a pong comes in at \<open>now\<close>.\<close>

definition pong_handler :: "transport \<Rightarrow> time \<Rightarrow> int \<Rightarrow> conn_call list \<times> conn_error option" where
  "pong_handler t now timeout = ([SetReadDeadline (Some (now + timeout))], tr_set_read_deadline t)"

definition conn_close ::
  "gorilla_conn \<Rightarrow> (int \<Rightarrow> string \<Rightarrow> string) \<Rightarrow> transport \<Rightarrow> time \<Rightarrow> int \<Rightarrow> string
     \<Rightarrow> conn_call list \<times> conn_error option" where
  "conn_close g format_close t now code reason =
     (let frame = format_close code reason;
          control = WriteControl close_message_type frame (now + gc_write_timeout g) in
      case tr_control t close_message_type frame of
        Some e \<Rightarrow> if e \<noteq> ErrCloseSent then ([control, CloseTcp], Some e)
                  else ([control, CloseTcp], tr_close t)
      | None \<Rightarrow> ([control, CloseTcp], tr_close t))"

section \<open>Properties\<close>

text \<open>The read deadline the calls leave, from the one before.\<close>

fun read_deadline_after :: "conn_call list \<Rightarrow> time option \<Rightarrow> time option" where
  "read_deadline_after [] d = d"
| "read_deadline_after (SetReadDeadline d' # cs) d = read_deadline_after cs d'"
| "read_deadline_after (c # cs) d = read_deadline_after cs d"

lemma read_deadline_append [conn_simps]:
  "read_deadline_after (cs @ ds) d = read_deadline_after ds (read_deadline_after cs d)"
  by (induction cs d rule: read_deadline_after.induct) simp_all

lemmas conn_method_defs =
  conn_read_message_def conn_write_message_def write_ping_def configure_keepalive_def
  pong_handler_def conn_close_def

text \<open>
  A read under a context with a deadline clears the deadline it set, whatever the read
  returned; a read without one, or under an expired context, leaves the deadline alone.
\<close>

theorem read_clears_own_deadline:
  assumes "tr_set_read_deadline t = None"
  shows "read_deadline_after (fst (conn_read_message t c)) old =
    (if ctx_err c = None \<and> ctx_deadline c \<noteq> None then None else old)"
  using assms by (auto simp: conn_read_message_def split: option.split)

theorem read_clears_own_deadline_witness:
  "read_deadline_after
     (fst (conn_read_message
        \<lparr>tr_set_read_deadline = None, tr_set_write_deadline = None, tr_read = Err NetTimeout,
         tr_write = None, tr_control = (\<lambda>k p. None), tr_close = None\<rparr>
        (with_timeout 5 10 background))) (Some 3) = None"
  by (subst read_clears_own_deadline) (simp_all add: with_timeout_def background_def)

text \<open>What a session does with the read side: reads under the background context, and pongs.\<close>

datatype read_side = SessionRead transport | PongAt transport time

fun read_side_calls :: "int \<Rightarrow> read_side \<Rightarrow> conn_call list" where
  "read_side_calls timeout (SessionRead t) = fst (conn_read_message t background)"
| "read_side_calls timeout (PongAt t now) = fst (pong_handler t now timeout)"

fun last_sign_of_life :: "time \<Rightarrow> read_side list \<Rightarrow> time" where
  "last_sign_of_life now [] = now"
| "last_sign_of_life now (SessionRead t # ios) = last_sign_of_life now ios"
| "last_sign_of_life now (PongAt t then' # ios) = last_sign_of_life then' ios"

lemma read_side_deadline:
  "read_deadline_after (concat (map (read_side_calls d) ios)) (Some (now + d)) =
     Some (last_sign_of_life now ios + d)"
  by (induction now ios rule: last_sign_of_life.induct)
    (simp_all add: conn_simps conn_read_message_def pong_handler_def background_def)

text \<open>
  Property C30: once the keepalive is configured, the reads of a session never lift its deadline:
  after any run of reads and pongs it is one timeout after the last pong, or after the
  configuration when no pong came.
\<close>

theorem keepalive_deadline_survives_reads:
  assumes "0 < timeout" and "configure_keepalive t now timeout = (calls, None)"
  shows "read_deadline_after (calls @ concat (map (read_side_calls timeout) ios)) old =
    Some (last_sign_of_life now ios + timeout)"
proof -
  have "read_deadline_after calls old = Some (now + timeout)"
    using assms by (auto simp: configure_keepalive_def split: option.splits)
  then show ?thesis by (simp add: conn_simps read_side_deadline)
qed

definition idle_transport :: transport where
  "idle_transport =
     \<lparr>tr_set_read_deadline = None, tr_set_write_deadline = None,
      tr_read = Ok (text_message_type, []), tr_write = None, tr_control = (\<lambda>k p. None),
      tr_close = None\<rparr>"

theorem keepalive_deadline_survives_reads_witness:
  "read_deadline_after
     (fst (configure_keepalive idle_transport 100 75)
      @ concat (map (read_side_calls 75)
          [SessionRead idle_transport, PongAt idle_transport 130, SessionRead idle_transport]))
     None = Some (130 + 75)"
proof -
  have "configure_keepalive idle_transport 100 75 =
      ([SetReadDeadline (Some (100 + 75)), SetPongHandler 75], None)"
    by (simp add: configure_keepalive_def idle_transport_def)
  from keepalive_deadline_survives_reads [OF _ this, of
      "[SessionRead idle_transport, PongAt idle_transport 130, SessionRead idle_transport]"]
  show ?thesis by (simp add: \<open>configure_keepalive _ _ _ = _\<close>)
qed

text \<open>
  Closing sends one close frame with the code and the reason and then closes the TCP
  connection, exactly once and on every path; only a peer that already closed hides an error of
  the close frame.
\<close>

theorem close_always_closes_tcp:
  "\<exists>r. conn_close g format_close t now code reason =
     ([WriteControl close_message_type (format_close code reason) (now + gc_write_timeout g), CloseTcp], r)
   \<and> r = (case tr_control t close_message_type (format_close code reason) of
            None \<Rightarrow> tr_close t
          | Some e \<Rightarrow> if e = ErrCloseSent then tr_close t else Some e)"
  by (auto simp: conn_close_def Let_def split: option.split)

text \<open>
  A write is bounded by the write timeout and by the deadline of its context, its
  deadline is cleared when the write was tried, and the frame carries the message unchanged.
\<close>

theorem write_bounded:
  "\<exists>d rest r. conn_write_message g t now c m = (SetWriteDeadline (Some d) # rest, r)
   \<and> d \<le> now + gc_write_timeout g
   \<and> (case ctx_deadline c of None \<Rightarrow> d = now + gc_write_timeout g | Some d' \<Rightarrow> d = min d' (now + gc_write_timeout g))
   \<and> (rest = [] \<and> r = tr_set_write_deadline t \<and> r \<noteq> None
      \<or> rest = [WriteFrame (if msg_type m = TextFrame then 1 else 2) (msg_data m), SetWriteDeadline None]
        \<and> r = tr_write t)"
  by (cases "msg_type m")
    (auto simp: conn_write_message_def Let_def write_deadline_def with_timeout_def
      to_gorilla_type_def text_message_type_def binary_message_type_def split: option.split)

text \<open>
  A message or an error of a read. Text and binary frames arrive with their bytes;
  a message over the limit and any other frame are protocol errors; a network timeout becomes
  the error of the context when the context has ended by then, and stays a network timeout when
  it has not, which no caller takes for the end of the context.
\<close>

theorem read_outcome_classes:
  "read_outcome c (Ok (text_message_type, p)) = Ok \<lparr>msg_type = TextFrame, msg_data = p\<rparr> \<and>
   read_outcome c (Ok (binary_message_type, p)) = Ok \<lparr>msg_type = BinaryFrame, msg_data = p\<rparr> \<and>
   read_outcome c (Err ErrReadLimit) = Err (ProtocolErr message_too_large) \<and>
   (ty \<notin> {text_message_type, binary_message_type} \<longrightarrow>
      read_outcome c (Ok (ty, p)) = Err (ProtocolErr unsupported_frame)) \<and>
   read_outcome (c\<lparr>ctx_err_after := Some CtxDeadlineExceeded\<rparr>) (Err NetTimeout) = Err CtxDeadlineExceeded \<and>
   read_outcome (c\<lparr>ctx_err_after := None\<rparr>) (Err NetTimeout) = Err NetTimeout \<and>
   \<not> is_deadline_exceeded NetTimeout \<and> \<not> is_peer_closed NetTimeout"
  by (simp add: read_outcome_def text_message_type_def binary_message_type_def)

theorem read_outcome_classes_witness:
  "read_outcome background (Ok (9, ''x'')) = Err (ProtocolErr unsupported_frame)"
  using read_outcome_classes [of background "''x''" 9]
  by (simp add: text_message_type_def binary_message_type_def)

text \<open>
  The upgrader never runs without a limit or a write timeout: settings that are not
  positive fall back to 64 KiB and five seconds, and the limit is set before the first read.
\<close>

theorem upgrade_limits:
  "0 < up_max_message_bytes (new_upgrader u) \<and> 0 < up_write_timeout (new_upgrader u) \<and>
   (0 < uc_max_message_bytes u \<longrightarrow> up_max_message_bytes (new_upgrader u) = uc_max_message_bytes u) \<and>
   upgrade (new_upgrader u) None =
     ([SetReadLimit (up_max_message_bytes (new_upgrader u))],
      Ok \<lparr>gc_write_timeout = up_write_timeout (new_upgrader u)\<rparr>)"
  by (simp add: new_upgrader_def upgrade_def default_write_timeout_def second_def)

theorem upgrade_limits_witness:
  "up_max_message_bytes (new_upgrader \<lparr>uc_max_message_bytes = 9, uc_write_timeout = 0\<rparr>) = 9"
  using upgrade_limits [of "\<lparr>uc_max_message_bytes = 9, uc_write_timeout = 0\<rparr>"] by simp

end
