(* ===== verification/Config_Model.thy ===== *)
theory Config_Model
  imports Go_Numeric
begin

text \<open>
  The configuration, \<^verbatim>\<open>internal/config/config.go\<close>: reading the optional \<open>KEY=VALUE\<close> file,
  laying the environment over it, resolving the settings with their defaults and validating the
  result. The file system and the environment are arguments (the contents of a path, the value
  of a variable), and so is \<^verbatim>\<open>net/url.Parse\<close>, of which the code reads the scheme and the host:
  every statement holds for any parser. Properties: a resolved configuration is valid, what
  validation accepts is exactly the predicate \<open>config_valid\<close>, the defaults, the precedence of the
  environment, the legacy alias of the authorization timeout, and the round trip of a file.
\<close>

section \<open>Names and defaults\<close>

definition env_config_file :: string where "env_config_file = ''GATEWAY_CONFIG_FILE''"
definition env_listen_address :: string where "env_listen_address = ''GATEWAY_LISTEN_ADDRESS''"
definition env_http_read_header_timeout :: string where "env_http_read_header_timeout = ''GATEWAY_HTTP_READ_HEADER_TIMEOUT''"
definition env_backend_base_url :: string where "env_backend_base_url = ''GATEWAY_BACKEND_BASE_URL''"
definition env_backend_timeout :: string where "env_backend_timeout = ''GATEWAY_BACKEND_TIMEOUT''"
definition env_log_level :: string where "env_log_level = ''GATEWAY_LOG_LEVEL''"
definition env_ssh_private_key_path :: string where "env_ssh_private_key_path = ''GATEWAY_SSH_PRIVATE_KEY_PATH''"
definition env_ssh_public_key_path :: string where "env_ssh_public_key_path = ''GATEWAY_SSH_PUBLIC_KEY_PATH''"
definition env_ssh_username :: string where "env_ssh_username = ''GATEWAY_SSH_USERNAME''"
definition env_ssh_port :: string where "env_ssh_port = ''GATEWAY_SSH_PORT''"
definition env_ssh_connect_timeout :: string where "env_ssh_connect_timeout = ''GATEWAY_SSH_CONNECT_TIMEOUT''"
definition env_ssh_insecure_ignore_host_key :: string where "env_ssh_insecure_ignore_host_key = ''GATEWAY_SSH_INSECURE_IGNORE_HOST_KEY''"
definition env_session_authorize_timeout :: string where "env_session_authorize_timeout = ''GATEWAY_SESSION_AUTHORIZE_TIMEOUT''"
definition env_session_idle_timeout :: string where "env_session_idle_timeout = ''GATEWAY_SESSION_IDLE_TIMEOUT''"
definition env_session_max_concurrent :: string where "env_session_max_concurrent = ''GATEWAY_SESSION_MAX_CONCURRENT''"
definition env_session_outbound_queue :: string where "env_session_outbound_queue = ''GATEWAY_SESSION_OUTBOUND_QUEUE_DEPTH''"
definition env_websocket_max_message_bytes :: string where "env_websocket_max_message_bytes = ''GATEWAY_WEBSOCKET_MAX_MESSAGE_BYTES''"
definition env_websocket_keepalive_interval :: string where "env_websocket_keepalive_interval = ''GATEWAY_WEBSOCKET_KEEPALIVE_INTERVAL''"
definition env_websocket_keepalive_timeout :: string where "env_websocket_keepalive_timeout = ''GATEWAY_WEBSOCKET_KEEPALIVE_TIMEOUT''"

lemmas env_names =
  env_config_file_def
  env_listen_address_def
  env_http_read_header_timeout_def
  env_backend_base_url_def
  env_backend_timeout_def
  env_log_level_def
  env_ssh_private_key_path_def
  env_ssh_public_key_path_def
  env_ssh_username_def
  env_ssh_port_def
  env_ssh_connect_timeout_def
  env_ssh_insecure_ignore_host_key_def
  env_session_authorize_timeout_def
  env_session_idle_timeout_def
  env_session_max_concurrent_def
  env_session_outbound_queue_def
  env_websocket_max_message_bytes_def
  env_websocket_keepalive_interval_def
  env_websocket_keepalive_timeout_def

definition env_keys :: "string list" where
  "env_keys =
     [env_config_file,
      env_listen_address,
      env_http_read_header_timeout,
      env_backend_base_url,
      env_backend_timeout,
      env_log_level,
      env_ssh_private_key_path,
      env_ssh_public_key_path,
      env_ssh_username,
      env_ssh_port,
      env_ssh_connect_timeout,
      env_ssh_insecure_ignore_host_key,
      env_session_authorize_timeout,
      env_session_idle_timeout,
      env_session_max_concurrent,
      env_session_outbound_queue,
      env_websocket_max_message_bytes,
      env_websocket_keepalive_interval,
      env_websocket_keepalive_timeout]"

definition default_http_read_header_timeout :: int where
  "default_http_read_header_timeout = 5 * second"
definition default_backend_timeout :: int where
  "default_backend_timeout = 5 * second"
definition default_ssh_private_key :: string where
  "default_ssh_private_key = ''secrets/gateway_ssh_ed25519''"
definition default_ssh_public_key :: string where
  "default_ssh_public_key = ''secrets/gateway_ssh_ed25519.pub''"
definition default_ssh_username :: string where
  "default_ssh_username = ''pi''"
definition default_ssh_port :: int where
  "default_ssh_port = 22"
definition default_ssh_connect_timeout :: int where
  "default_ssh_connect_timeout = 5 * second"
definition default_ssh_insecure_ignore_host_key :: bool where
  "default_ssh_insecure_ignore_host_key = True"
definition default_session_authorize_timeout :: int where
  "default_session_authorize_timeout = 2 * minute"
definition default_session_max_concurrent :: int where
  "default_session_max_concurrent = 32"
definition default_session_outbound_queue :: int where
  "default_session_outbound_queue = 16"
definition default_websocket_max_message_bytes :: int where
  "default_websocket_max_message_bytes = 64 * 1024"
definition default_websocket_keepalive_interval :: int where
  "default_websocket_keepalive_interval = 30 * second"
definition default_websocket_keepalive_timeout :: int where
  "default_websocket_keepalive_timeout = 75 * second"

lemmas default_defs =
  default_http_read_header_timeout_def default_backend_timeout_def default_ssh_private_key_def
  default_ssh_public_key_def default_ssh_username_def default_ssh_port_def
  default_ssh_connect_timeout_def default_ssh_insecure_ignore_host_key_def
  default_session_authorize_timeout_def default_session_max_concurrent_def
  default_session_outbound_queue_def default_websocket_max_message_bytes_def
  default_websocket_keepalive_interval_def default_websocket_keepalive_timeout_def

section \<open>The configuration\<close>

datatype log_level = LevelDebug | LevelInfo | LevelWarn | LevelError

text \<open>The order of \<^verbatim>\<open>log/slog\<close>'s levels.\<close>

fun level_number :: "log_level \<Rightarrow> int" where
  "level_number LevelDebug = -4"
| "level_number LevelInfo = 0"
| "level_number LevelWarn = 4"
| "level_number LevelError = 8"

lemma level_number_inject: "level_number a = level_number b \<longleftrightarrow> a = b"
  by (cases a; cases b) simp_all

instantiation log_level :: linorder
begin

definition less_eq_log_level :: "log_level \<Rightarrow> log_level \<Rightarrow> bool" where
  "less_eq_log_level a b \<longleftrightarrow> level_number a \<le> level_number b"

definition less_log_level :: "log_level \<Rightarrow> log_level \<Rightarrow> bool" where
  "less_log_level a b \<longleftrightarrow> level_number a < level_number b"

instance
  by standard (auto simp: less_eq_log_level_def less_log_level_def level_number_inject)

end

definition default_log_level :: log_level where
  "default_log_level = LevelInfo"

record http_config =
  http_listen_address :: string
  http_read_header_timeout :: int

record backend_config =
  backend_base_url :: string
  backend_validation_timeout :: int

record logging_config =
  logging_level :: log_level

record secrets_config =
  secrets_ssh_private_key_path :: string
  secrets_ssh_public_key_path :: string

record ssh_config =
  ssh_username :: string
  ssh_port :: int
  ssh_connect_timeout :: int
  ssh_insecure_ignore_host_key :: bool

record session_config =
  session_authorize_timeout :: int
  session_max_concurrent :: int
  session_outbound_queue_depth :: int

record websocket_config =
  ws_max_message_bytes :: int
  ws_keepalive_interval :: int
  ws_keepalive_timeout :: int

record config =
  cfg_http :: http_config
  cfg_backend :: backend_config
  cfg_logging :: logging_config
  cfg_secrets :: secrets_config
  cfg_ssh :: ssh_config
  cfg_session :: session_config
  cfg_websocket :: websocket_config

text \<open>One constructor per error text of the package.\<close>

datatype config_error =
    OpenConfigFile
  | ConfigLine nat
  | ReadConfigFile
  | ParseSetting string
  | MustBeSet string
  | MustUseHttp string
  | MustIncludeHost string
  | MustBePositive string
  | MustNotBeEmpty string
  | PortRange string
  | MustExceed string string
  | InvalidLogLevel string

section \<open>Validation\<close>

text \<open>The checks in order, the first failing one is the error.\<close>

fun first_failure :: "(bool \<times> 'e) list \<Rightarrow> ('e, unit) result" where
  "first_failure [] = Ok ()"
| "first_failure ((failed, e) # cs) = (if failed then Err e else first_failure cs)"

lemma first_failure_Ok: "first_failure cs = Ok () \<longleftrightarrow> (\<forall>c \<in> set cs. \<not> fst c)"
  by (induction cs rule: first_failure.induct) auto

lemma first_failure_Err: "first_failure cs = Err e \<Longrightarrow> (True, e) \<in> set cs"
  by (induction cs rule: first_failure.induct) (auto split: if_splits)

definition validate ::
  "(string \<Rightarrow> (string \<times> string) option) \<Rightarrow> config \<Rightarrow> (config_error, unit) result" where
  "validate parse_url c =
     (let url = parse_url (backend_base_url (cfg_backend c)) in
      first_failure
        [(trim_space (http_listen_address (cfg_http c)) = [], MustBeSet env_listen_address),
         (trim_space (backend_base_url (cfg_backend c)) = [], MustBeSet env_backend_base_url),
         (url = None, ParseSetting env_backend_base_url),
         (fst (the url) \<noteq> ''http'' \<and> fst (the url) \<noteq> ''https'', MustUseHttp env_backend_base_url),
         (snd (the url) = [], MustIncludeHost env_backend_base_url),
         (backend_validation_timeout (cfg_backend c) \<le> 0, MustBePositive env_backend_timeout),
         (http_read_header_timeout (cfg_http c) \<le> 0, MustBePositive env_http_read_header_timeout),
         (trim_space (secrets_ssh_private_key_path (cfg_secrets c)) = [],
            MustNotBeEmpty env_ssh_private_key_path),
         (trim_space (secrets_ssh_public_key_path (cfg_secrets c)) = [],
            MustNotBeEmpty env_ssh_public_key_path),
         (trim_space (ssh_username (cfg_ssh c)) = [], MustNotBeEmpty env_ssh_username),
         (ssh_port (cfg_ssh c) \<le> 0 \<or> 65535 < ssh_port (cfg_ssh c), PortRange env_ssh_port),
         (ssh_connect_timeout (cfg_ssh c) \<le> 0, MustBePositive env_ssh_connect_timeout),
         (session_authorize_timeout (cfg_session c) \<le> 0,
            MustBePositive env_session_authorize_timeout),
         (session_max_concurrent (cfg_session c) \<le> 0, MustBePositive env_session_max_concurrent),
         (session_outbound_queue_depth (cfg_session c) \<le> 0,
            MustBePositive env_session_outbound_queue),
         (ws_max_message_bytes (cfg_websocket c) \<le> 0, MustBePositive env_websocket_max_message_bytes),
         (ws_keepalive_interval (cfg_websocket c) \<le> 0,
            MustBePositive env_websocket_keepalive_interval),
         (ws_keepalive_timeout (cfg_websocket c) \<le> 0,
            MustBePositive env_websocket_keepalive_timeout),
         (ws_keepalive_timeout (cfg_websocket c) \<le> ws_keepalive_interval (cfg_websocket c),
            MustExceed env_websocket_keepalive_timeout env_websocket_keepalive_interval)])"

section \<open>Resolving\<close>

type_synonym vars = "string \<rightharpoonup> string"

text \<open>\<open>vars[key]\<close>: the empty text for a missing key.\<close>

definition var :: "vars \<Rightarrow> string \<Rightarrow> string" where
  "var vars key = (case vars key of None \<Rightarrow> [] | Some v \<Rightarrow> v)"

fun first_non_empty :: "string list \<Rightarrow> string" where
  "first_non_empty [] = []"
| "first_non_empty (v # vs) = (if trim_space v \<noteq> [] then trim_space v else first_non_empty vs)"

definition parse_log_level :: "string \<Rightarrow> (config_error, log_level) result" where
  "parse_log_level value =
     (let v = to_lower (trim_space value) in
      if v = ''debug'' then Ok LevelDebug
      else if v = ''info'' then Ok LevelInfo
      else if v = ''warn'' \<or> v = ''warning'' then Ok LevelWarn
      else if v = ''error'' then Ok LevelError
      else Err (InvalidLogLevel value))"

text \<open>An optional setting: the default when blank, else the parsed value or the error.\<close>

definition setting :: "string \<Rightarrow> string \<Rightarrow> (string \<Rightarrow> 'a option) \<Rightarrow> 'a \<Rightarrow> (config_error, 'a) result" where
  "setting key value parse fallback =
     (if trim_space value = [] then Ok fallback
      else case parse (trim_space value) of
             None \<Rightarrow> Err (ParseSetting key)
           | Some x \<Rightarrow> Ok x)"

text \<open>The value of the authorization timeout, or of its legacy name.\<close>

definition authorize_timeout_value :: "vars \<Rightarrow> string" where
  "authorize_timeout_value vars =
     (if trim_space (var vars env_session_authorize_timeout) = []
      then trim_space (var vars env_session_idle_timeout)
      else trim_space (var vars env_session_authorize_timeout))"

definition log_level_setting :: "vars \<Rightarrow> (config_error, log_level) result" where
  "log_level_setting vars =
     (if trim_space (var vars env_log_level) = [] then Ok default_log_level
      else parse_log_level (trim_space (var vars env_log_level)))"

definition backend_timeout_setting :: "vars \<Rightarrow> (config_error, int) result" where
  "backend_timeout_setting vars =
     (case parse_duration
             (first_non_empty [var vars env_backend_timeout, duration_string default_backend_timeout]) of
        None \<Rightarrow> Err (ParseSetting env_backend_timeout)
      | Some d \<Rightarrow> Ok d)"

definition resolve ::
  "(string \<Rightarrow> (string \<times> string) option) \<Rightarrow> vars \<Rightarrow> (config_error, config) result" where
  "resolve parse_url vars =
     and_then (backend_timeout_setting vars) (\<lambda>validation_timeout.
     and_then (setting env_http_read_header_timeout (var vars env_http_read_header_timeout)
                 parse_duration default_http_read_header_timeout) (\<lambda>read_header_timeout.
     and_then (setting env_ssh_port (var vars env_ssh_port) atoi default_ssh_port) (\<lambda>port.
     and_then (setting env_ssh_connect_timeout (var vars env_ssh_connect_timeout)
                 parse_duration default_ssh_connect_timeout) (\<lambda>connect_timeout.
     and_then (setting env_ssh_insecure_ignore_host_key (var vars env_ssh_insecure_ignore_host_key)
                 parse_bool default_ssh_insecure_ignore_host_key) (\<lambda>insecure.
     and_then (setting env_session_authorize_timeout (authorize_timeout_value vars)
                 parse_duration default_session_authorize_timeout) (\<lambda>authorize_timeout.
     and_then (setting env_session_max_concurrent (var vars env_session_max_concurrent)
                 atoi default_session_max_concurrent) (\<lambda>max_concurrent.
     and_then (setting env_session_outbound_queue (var vars env_session_outbound_queue)
                 atoi default_session_outbound_queue) (\<lambda>queue_depth.
     and_then (setting env_websocket_max_message_bytes (var vars env_websocket_max_message_bytes)
                 parse_int default_websocket_max_message_bytes) (\<lambda>max_message_bytes.
     and_then (setting env_websocket_keepalive_interval (var vars env_websocket_keepalive_interval)
                 parse_duration default_websocket_keepalive_interval) (\<lambda>interval.
     and_then (setting env_websocket_keepalive_timeout (var vars env_websocket_keepalive_timeout)
                 parse_duration default_websocket_keepalive_timeout) (\<lambda>timeout.
     and_then (log_level_setting vars) (\<lambda>level.
       let cfg = \<lparr>
         cfg_http = \<lparr>http_listen_address = trim_space (var vars env_listen_address),
                     http_read_header_timeout = read_header_timeout\<rparr>,
         cfg_backend = \<lparr>backend_base_url = trim_space (var vars env_backend_base_url),
                        backend_validation_timeout = validation_timeout\<rparr>,
         cfg_logging = \<lparr>logging_level = level\<rparr>,
         cfg_secrets = \<lparr>secrets_ssh_private_key_path =
                          first_non_empty [var vars env_ssh_private_key_path, default_ssh_private_key],
                        secrets_ssh_public_key_path =
                          first_non_empty [var vars env_ssh_public_key_path, default_ssh_public_key]\<rparr>,
         cfg_ssh = \<lparr>ssh_username = first_non_empty [var vars env_ssh_username, default_ssh_username],
                    ssh_port = port, ssh_connect_timeout = connect_timeout,
                    ssh_insecure_ignore_host_key = insecure\<rparr>,
         cfg_session = \<lparr>session_authorize_timeout = authorize_timeout,
                        session_max_concurrent = max_concurrent,
                        session_outbound_queue_depth = queue_depth\<rparr>,
         cfg_websocket = \<lparr>ws_max_message_bytes = max_message_bytes,
                          ws_keepalive_interval = interval, ws_keepalive_timeout = timeout\<rparr>\<rparr>
       in and_then (validate parse_url cfg) (\<lambda>_. Ok cfg)))))))))))))"

section \<open>Reading the file and the environment\<close>

text \<open>What opening and reading a path gives; a failing read delivers some bytes first.\<close>

datatype file_result = CannotOpen | ReadFails string | Contents string

text \<open>
  \<^verbatim>\<open>bufio.Scanner\<close> over lines: the raw lines without their newline; a line of 64 KiB or more
  does not fit its buffer, which ends the scan with an error.
\<close>

lemma after_newline_less:
  "s \<noteq> [] \<Longrightarrow> length (dropWhile P s) - Suc 0 < length s"
  using length_dropWhile_le [of P s] by (cases s) (auto simp: less_Suc_eq_le)

function raw_lines :: "string \<Rightarrow> string list" where
  "raw_lines s =
     (if s = [] then []
      else takeWhile (\<lambda>c. c \<noteq> CHR 0x0A) s # raw_lines (drop 1 (dropWhile (\<lambda>c. c \<noteq> CHR 0x0A) s)))"
  by pat_completeness auto
termination
  by (relation "measure length") (auto simp: after_newline_less)

declare raw_lines.simps [simp del]

definition max_line :: nat where
  "max_line = 64 * 1024"

definition drop_cr :: "string \<Rightarrow> string" where
  "drop_cr s = (if s \<noteq> [] \<and> last s = CHR 0x0D then butlast s else s)"

definition has_quotes :: "char \<Rightarrow> string \<Rightarrow> bool" where
  "has_quotes q s \<longleftrightarrow> hd s = q \<and> last s = q"

definition trim_quotes :: "string \<Rightarrow> string" where
  "trim_quotes value =
     (if length value < 2 then value
      else if has_quotes CHR 0x22 value then butlast (tl value)
      else if has_quotes CHR 0x27 value then butlast (tl value)
      else value)"

fun load_lines :: "nat \<Rightarrow> string list \<Rightarrow> vars \<Rightarrow> (config_error, vars) result" where
  "load_lines n [] vars = Ok vars"
| "load_lines n (raw # ls) vars =
     (if max_line \<le> length raw then Err ReadConfigFile
      else let line = trim_space (drop_cr raw) in
        if line = [] \<or> hd line = CHR ''#'' then load_lines (Suc n) ls vars
        else case cut CHR ''='' line of
          None \<Rightarrow> Err (ConfigLine (Suc n))
        | Some (key, value) \<Rightarrow>
            load_lines (Suc n) ls (vars(trim_space key \<mapsto> trim_quotes (trim_space value))))"

definition load_file :: "(string \<Rightarrow> file_result) \<Rightarrow> string \<Rightarrow> (config_error, vars) result" where
  "load_file open_file path =
     (case open_file path of
        CannotOpen \<Rightarrow> Err OpenConfigFile
      | ReadFails bytes \<Rightarrow>
          and_then (load_lines 0 (raw_lines bytes) Map.empty) (\<lambda>_. Err ReadConfigFile)
      | Contents bytes \<Rightarrow> load_lines 0 (raw_lines bytes) Map.empty)"

text \<open>The environment over the values of the file, for the known keys.\<close>

fun overlay :: "(string \<Rightarrow> string option) \<Rightarrow> string list \<Rightarrow> vars \<Rightarrow> vars" where
  "overlay lookup [] vars = vars"
| "overlay lookup (key # ks) vars =
     (case lookup key of
        None \<Rightarrow> overlay lookup ks vars
      | Some value \<Rightarrow> overlay lookup ks (vars(key \<mapsto> value)))"

definition load_vars ::
  "(string \<Rightarrow> file_result) \<Rightarrow> (string \<Rightarrow> string option) \<Rightarrow> (config_error, vars) result" where
  "load_vars open_file lookup =
     (let file_vars =
        (case lookup env_config_file of
           None \<Rightarrow> Ok Map.empty
         | Some path \<Rightarrow>
             if trim_space path = [] then Ok Map.empty else load_file open_file path)
      in and_then file_vars (\<lambda>vars. Ok (overlay lookup env_keys vars)))"

definition load ::
  "(string \<Rightarrow> (string \<times> string) option) \<Rightarrow> (string \<Rightarrow> file_result) \<Rightarrow> (string \<Rightarrow> string option)
    \<Rightarrow> (config_error, config) result" where
  "load parse_url open_file lookup =
     and_then (load_vars open_file lookup) (resolve parse_url)"

section \<open>What validation accepts\<close>

definition config_valid :: "(string \<Rightarrow> (string \<times> string) option) \<Rightarrow> config \<Rightarrow> bool" where
  "config_valid parse_url c \<longleftrightarrow>
     trim_space (http_listen_address (cfg_http c)) \<noteq> []
     \<and> trim_space (backend_base_url (cfg_backend c)) \<noteq> []
     \<and> (\<exists>scheme host. parse_url (backend_base_url (cfg_backend c)) = Some (scheme, host)
          \<and> (scheme = ''http'' \<or> scheme = ''https'') \<and> host \<noteq> [])
     \<and> 0 < backend_validation_timeout (cfg_backend c)
     \<and> 0 < http_read_header_timeout (cfg_http c)
     \<and> trim_space (secrets_ssh_private_key_path (cfg_secrets c)) \<noteq> []
     \<and> trim_space (secrets_ssh_public_key_path (cfg_secrets c)) \<noteq> []
     \<and> trim_space (ssh_username (cfg_ssh c)) \<noteq> []
     \<and> 1 \<le> ssh_port (cfg_ssh c) \<and> ssh_port (cfg_ssh c) \<le> 65535
     \<and> 0 < ssh_connect_timeout (cfg_ssh c)
     \<and> 0 < session_authorize_timeout (cfg_session c)
     \<and> 0 < session_max_concurrent (cfg_session c)
     \<and> 0 < session_outbound_queue_depth (cfg_session c)
     \<and> 0 < ws_max_message_bytes (cfg_websocket c)
     \<and> 0 < ws_keepalive_interval (cfg_websocket c)
     \<and> ws_keepalive_interval (cfg_websocket c) < ws_keepalive_timeout (cfg_websocket c)"

lemma validate_Ok: "validate parse_url c = Ok () \<longleftrightarrow> config_valid parse_url c"
  by (cases "parse_url (backend_base_url (cfg_backend c))")
    (auto simp: validate_def Let_def first_failure_Ok config_valid_def)

lemma resolve_Ok:
  assumes "resolve parse_url vars = Ok cfg"
  shows "validate parse_url cfg = Ok ()"
  using assms by (auto simp: resolve_def and_then_Inr Let_def)

text \<open>
  The settings a session registry is built from are positive, and the keepalive timeout leaves
  room for a ping.
\<close>

lemma config_valid_session:
  "config_valid parse_url c \<Longrightarrow>
     0 < session_max_concurrent (cfg_session c) \<and> 0 < session_outbound_queue_depth (cfg_session c)
     \<and> 0 < ws_keepalive_interval (cfg_websocket c)
     \<and> ws_keepalive_interval (cfg_websocket c) < ws_keepalive_timeout (cfg_websocket c)"
  by (simp add: config_valid_def)

text \<open>Property C33: validation accepts exactly the valid configurations.\<close>

theorem validate_iff_config_valid:
  "is_ok (validate parse_url c) \<longleftrightarrow> config_valid parse_url c"
  by (cases "validate parse_url c") (auto simp: validate_Ok [symmetric])

section \<open>Defaults\<close>

definition default_config :: "string \<Rightarrow> string \<Rightarrow> config" where
  "default_config listen url =
     \<lparr>cfg_http = \<lparr>http_listen_address = listen, http_read_header_timeout = 5000000000\<rparr>,
      cfg_backend = \<lparr>backend_base_url = url, backend_validation_timeout = 5000000000\<rparr>,
      cfg_logging = \<lparr>logging_level = LevelInfo\<rparr>,
      cfg_secrets = \<lparr>secrets_ssh_private_key_path = ''secrets/gateway_ssh_ed25519'',
                     secrets_ssh_public_key_path = ''secrets/gateway_ssh_ed25519.pub''\<rparr>,
      cfg_ssh = \<lparr>ssh_username = ''pi'', ssh_port = 22, ssh_connect_timeout = 5000000000,
                 ssh_insecure_ignore_host_key = True\<rparr>,
      cfg_session = \<lparr>session_authorize_timeout = 120000000000, session_max_concurrent = 32,
                     session_outbound_queue_depth = 16\<rparr>,
      cfg_websocket = \<lparr>ws_max_message_bytes = 65536, ws_keepalive_interval = 30000000000,
                       ws_keepalive_timeout = 75000000000\<rparr>\<rparr>"

lemma default_words:
  "trim_space ''secrets/gateway_ssh_ed25519'' = ''secrets/gateway_ssh_ed25519''"
  "trim_space ''secrets/gateway_ssh_ed25519.pub'' = ''secrets/gateway_ssh_ed25519.pub''"
  "trim_space ''pi'' = ''pi''"
  by (rule trim_space_ascii_word, simp add: ascii_word_def)+

lemma default_backend_timeout_round_trip:
  "duration_string default_backend_timeout = ''5s''" "parse_duration ''5s'' = Some 5000000000"
  "trim_space ''5s'' = ''5s''"
  by code_simp+

lemma env_keys_distinct: "distinct env_keys"
  by (simp add: env_keys_def env_names)

lemma setting_blank: "setting key [] parse fallback = Ok fallback"
  by (simp add: setting_def)

lemma resolve_minimal:
  assumes "trim_space listen \<noteq> []" and "trim_space url \<noteq> []"
    and "parse_url (trim_space url) = Some (scheme, host)"
    and "scheme = ''http'' \<or> scheme = ''https''" and "host \<noteq> []"
  shows "resolve parse_url [env_listen_address \<mapsto> listen, env_backend_base_url \<mapsto> url]
    = Ok (default_config (trim_space listen) (trim_space url))"
proof -
  have valid: "validate parse_url (default_config (trim_space listen) (trim_space url)) = Ok ()"
    using assms by (auto simp: validate_Ok config_valid_def default_config_def default_words)
  define vars :: vars where "vars = [env_listen_address \<mapsto> listen, env_backend_base_url \<mapsto> url]"
  have set_vars: "var vars env_listen_address = listen" "var vars env_backend_base_url = url"
    by (simp_all add: vars_def var_def env_names)
  have blank:
    "var vars env_http_read_header_timeout = []"
    "var vars env_backend_timeout = []"
    "var vars env_log_level = []"
    "var vars env_ssh_private_key_path = []"
    "var vars env_ssh_public_key_path = []"
    "var vars env_ssh_username = []"
    "var vars env_ssh_port = []"
    "var vars env_ssh_connect_timeout = []"
    "var vars env_ssh_insecure_ignore_host_key = []"
    "var vars env_session_authorize_timeout = []"
    "var vars env_session_idle_timeout = []"
    "var vars env_session_max_concurrent = []"
    "var vars env_session_outbound_queue = []"
    "var vars env_websocket_max_message_bytes = []"
    "var vars env_websocket_keepalive_interval = []"
    "var vars env_websocket_keepalive_timeout = []"
    by (simp add: vars_def var_def, simp add: env_names)+
  have timeout: "backend_timeout_setting vars = Ok 5000000000"
    by (simp add: backend_timeout_setting_def blank default_backend_timeout_round_trip)
  have "authorize_timeout_value vars = []" "log_level_setting vars = Ok LevelInfo"
    by (simp_all add: authorize_timeout_value_def log_level_setting_def default_log_level_def blank)
  with valid timeout show ?thesis
    unfolding vars_def [symmetric] resolve_def
    by (simp add: set_vars blank setting_blank default_defs second_def minute_def default_words
        Let_def default_config_def)
qed

text \<open>Whatever the settings, a resolved configuration is valid.\<close>

theorem resolve_valid:
  assumes "resolve parse_url vars = Ok cfg"
  shows "config_valid parse_url cfg"
  using resolve_Ok [OF assms] by (simp add: validate_Ok)

theorem resolve_valid_witness:
  "config_valid (\<lambda>u. Some (''http'', ''backend'')) (default_config '':8080'' ''http://backend'')"
proof -
  have words: "trim_space '':8080'' = '':8080''" "trim_space ''http://backend'' = ''http://backend''"
    by code_simp+
  have "resolve (\<lambda>u. Some (''http'', ''backend''))
      [env_listen_address \<mapsto> '':8080'', env_backend_base_url \<mapsto> ''http://backend'']
    = Ok (default_config '':8080'' ''http://backend'')"
    using resolve_minimal [of "'':8080''" "''http://backend''" "\<lambda>u. Some (''http'', ''backend'')"
        "''http''" "''backend''"] words by simp
  from resolve_valid [OF this] show ?thesis .
qed

text \<open>
  The listen address and the backend URL are the only settings without a default;
  in particular the read-header timeout may be left out.
\<close>

theorem resolve_defaults:
  assumes "trim_space listen \<noteq> []" and "trim_space url \<noteq> []"
    and "parse_url (trim_space url) = Some (scheme, host)"
    and "scheme = ''http'' \<or> scheme = ''https''" and "host \<noteq> []"
  shows "resolve parse_url [env_listen_address \<mapsto> listen, env_backend_base_url \<mapsto> url]
    = Ok (default_config (trim_space listen) (trim_space url))"
  using assms by (rule resolve_minimal)

theorem resolve_defaults_witness:
  "resolve (\<lambda>u. Some (''https'', ''b'')) [env_listen_address \<mapsto> '':80'', env_backend_base_url \<mapsto> ''https://b'']
    = Ok (default_config '':80'' ''https://b'')"
proof -
  have "trim_space '':80'' = '':80''" "trim_space ''https://b'' = ''https://b''"
    by code_simp+
  then show ?thesis
    using resolve_defaults [of "'':80''" "''https://b''" "\<lambda>u. Some (''https'', ''b'')" "''https''" "''b''"]
    by simp
qed

section \<open>Precedence and the legacy name\<close>

lemma overlay_lookup:
  "overlay lookup ks vars k = (if k \<in> set ks \<and> lookup k \<noteq> None then lookup k else vars k)"
  by (induction ks arbitrary: vars) (auto split: option.splits)

text \<open>The variables by name.\<close>

definition gateway_variables :: "string set" where
  "gateway_variables =
     {''GATEWAY_CONFIG_FILE'', ''GATEWAY_LISTEN_ADDRESS'', ''GATEWAY_HTTP_READ_HEADER_TIMEOUT'',
      ''GATEWAY_BACKEND_BASE_URL'', ''GATEWAY_BACKEND_TIMEOUT'', ''GATEWAY_LOG_LEVEL'',
      ''GATEWAY_SSH_PRIVATE_KEY_PATH'', ''GATEWAY_SSH_PUBLIC_KEY_PATH'', ''GATEWAY_SSH_USERNAME'',
      ''GATEWAY_SSH_PORT'', ''GATEWAY_SSH_CONNECT_TIMEOUT'',
      ''GATEWAY_SSH_INSECURE_IGNORE_HOST_KEY'', ''GATEWAY_SESSION_AUTHORIZE_TIMEOUT'',
      ''GATEWAY_SESSION_IDLE_TIMEOUT'', ''GATEWAY_SESSION_MAX_CONCURRENT'',
      ''GATEWAY_SESSION_OUTBOUND_QUEUE_DEPTH'', ''GATEWAY_WEBSOCKET_MAX_MESSAGE_BYTES'',
      ''GATEWAY_WEBSOCKET_KEEPALIVE_INTERVAL'', ''GATEWAY_WEBSOCKET_KEEPALIVE_TIMEOUT''}"

lemma set_env_keys: "set env_keys = gateway_variables"
  by (simp add: env_keys_def env_names gateway_variables_def)

lemma load_vars_Ok:
  assumes "load_vars open_file lookup = Ok vars"
  shows "\<exists>file_vars. vars = overlay lookup env_keys file_vars \<and>
    (case lookup env_config_file of
       None \<Rightarrow> file_vars = Map.empty
     | Some path \<Rightarrow>
         if trim_space path = [] then file_vars = Map.empty else load_file open_file path = Ok file_vars)"
  using assms by (auto simp: load_vars_def and_then_Inr Let_def split: option.splits if_splits)

text \<open>
  Property C39: what the settings are read from. Loading fails only for the error of a
  configuration file that was named. Otherwise each of the nineteen variables has the
  value of the environment, even an empty one, when the environment has it, and the value of the file
  when not; and without a file, named by a variable that is not blank, only the environment counts.
\<close>

theorem environment_overrides_file:
  "case load_vars open_file lookup of
     Inl e \<Rightarrow> \<exists>path. lookup ''GATEWAY_CONFIG_FILE'' = Some path \<and> trim_space path \<noteq> []
       \<and> load_file open_file path = Err e
   | Inr vars \<Rightarrow> \<exists>file_vars.
       (case lookup ''GATEWAY_CONFIG_FILE'' of
          None \<Rightarrow> file_vars = Map.empty
        | Some path \<Rightarrow>
            if trim_space path = [] then file_vars = Map.empty
            else load_file open_file path = Ok file_vars)
       \<and> (\<forall>key. vars key =
            (case lookup key of
               Some v \<Rightarrow> if key \<in> gateway_variables then Some v else file_vars key
             | None \<Rightarrow> file_vars key))"
proof (cases "load_vars open_file lookup")
  case (Inl e)
  then show ?thesis
    by (auto simp: load_vars_def and_then_Inl env_config_file_def Let_def
        split: option.splits if_splits sum.splits)
next
  case (Inr vars)
  from load_vars_Ok [OF this] obtain file_vars where f: "vars = overlay lookup env_keys file_vars"
    "case lookup env_config_file of
       None \<Rightarrow> file_vars = Map.empty
     | Some path \<Rightarrow>
         if trim_space path = [] then file_vars = Map.empty else load_file open_file path = Ok file_vars"
    by blast
  have "vars key = (case lookup key of
      Some v \<Rightarrow> if key \<in> gateway_variables then Some v else file_vars key | None \<Rightarrow> file_vars key)" for key
    unfolding f(1) overlay_lookup set_env_keys by (simp split: option.split)
  with f(2) show ?thesis unfolding Inr sum.case env_config_file_def by blast
qed

theorem environment_overrides_file_witness:
  "case load_vars (\<lambda>_. Contents ''GATEWAY_SSH_PORT=2222'') [''GATEWAY_SSH_PORT'' \<mapsto> ''23''] of
     Inl e \<Rightarrow> False
   | Inr vars \<Rightarrow> vars ''GATEWAY_SSH_PORT'' = Some ''23''"
proof -
  let ?open = "\<lambda>_::string. Contents ''GATEWAY_SSH_PORT=2222''"
  let ?env = "[''GATEWAY_SSH_PORT'' \<mapsto> ''23'']"
  have "is_ok (load_vars ?open ?env)" by code_simp
  then obtain vars where ok: "load_vars ?open ?env = Ok vars" by (auto simp: is_ok_iff)
  have "?env ''GATEWAY_SSH_PORT'' = Some ''23''" "''GATEWAY_SSH_PORT'' \<in> gateway_variables"
    by (simp_all add: gateway_variables_def)
  with environment_overrides_file [of ?env ?open] show ?thesis unfolding ok by auto
qed

lemma resolve_authorize_timeout:
  assumes "resolve parse_url vars = Ok cfg"
  shows "setting env_session_authorize_timeout (authorize_timeout_value vars)
    parse_duration default_session_authorize_timeout = Ok (session_authorize_timeout (cfg_session cfg))"
  using assms by (auto simp: resolve_def and_then_Inr Let_def)

text \<open>
  Without an authorization timeout, the legacy idle timeout is the authorization
  timeout of the resolved configuration.
\<close>

theorem legacy_idle_timeout:
  assumes "resolve parse_url vars = Ok cfg"
    and "trim_space (var vars env_session_authorize_timeout) = []"
    and "trim_space (var vars env_session_idle_timeout) \<noteq> []"
  shows "parse_duration (trim_space (var vars env_session_idle_timeout))
    = Some (session_authorize_timeout (cfg_session cfg))"
  using resolve_authorize_timeout [OF assms(1)] assms(2,3)
  by (auto simp: setting_def authorize_timeout_value_def split: option.splits)

theorem legacy_idle_timeout_witness:
  "\<exists>cfg. resolve (\<lambda>u. Some (''http'', ''h''))
      [env_listen_address \<mapsto> '':80'', env_backend_base_url \<mapsto> ''http://h'', env_session_idle_timeout \<mapsto> ''33s'']
    = Ok cfg \<and> parse_duration ''33s'' = Some (session_authorize_timeout (cfg_session cfg))"
proof -
  let ?vars = "[env_listen_address \<mapsto> '':80'', env_backend_base_url \<mapsto> ''http://h'',
    env_session_idle_timeout \<mapsto> ''33s'']"
  have "is_ok (resolve (\<lambda>u. Some (''http'', ''h'')) ?vars)" by code_simp
  then obtain cfg where ok: "resolve (\<lambda>u. Some (''http'', ''h'')) ?vars = Ok cfg"
    by (auto simp: is_ok_iff)
  have "trim_space (var ?vars env_session_authorize_timeout) = []"
    "trim_space (var ?vars env_session_idle_timeout) = ''33s''"
    by code_simp+
  with legacy_idle_timeout [OF ok] ok show ?thesis by auto
qed

section \<open>The round trip of a configuration file\<close>

text \<open>An assignment as an operator writes it, the value in double quotes.\<close>

definition render_assignment :: "string \<times> string \<Rightarrow> string" where
  "render_assignment kv = fst kv @ CHR ''='' # CHR 0x22 # snd kv @ [CHR 0x22, CHR 0x0A]"

definition writable :: "string \<times> string \<Rightarrow> bool" where
  "writable kv \<longleftrightarrow>
     fst kv \<noteq> [] \<and> ascii_word (fst kv) \<and> CHR ''='' \<notin> set (fst kv) \<and> hd (fst kv) \<noteq> CHR ''#''
     \<and> CHR 0x0A \<notin> set (snd kv) \<and> length (fst kv) + length (snd kv) + 3 < max_line"

lemma raw_lines_line:
  "CHR 0x0A \<notin> set l \<Longrightarrow> raw_lines (l @ CHR 0x0A # r) = l # raw_lines r"
  by (subst raw_lines.simps) (simp add: takeWhile_append dropWhile_append)

lemma newline_not_word: "ascii_word w \<Longrightarrow> CHR 0x0A \<notin> set w"
  by (auto simp: ascii_word_def)

lemma load_line_rendered:
  assumes "writable (k, v)"
  shows "load_lines n ((k @ CHR ''='' # CHR 0x22 # v @ [CHR 0x22]) # ls) vars
    = load_lines (Suc n) ls (vars(k \<mapsto> v))"
proof -
  let ?l = "k @ CHR ''='' # CHR 0x22 # v @ [CHR 0x22]"
  let ?v = "CHR 0x22 # v @ [CHR 0x22]"
  obtain c cs where k: "k = c # cs" using assms by (cases k) (auto simp: writable_def)
  have c: "0x20 < byte c" "byte c < 0x80" "c \<noteq> CHR ''#''"
    using assms by (auto simp: writable_def ascii_word_def k)
  have tv: "trim_space ?v = ?v" by (rule trim_space_ends) simp_all
  have tl: "trim_space ?l = ?l" using c by (intro trim_space_ends) (simp_all add: k)
  have tk: "trim_space k = k" using assms by (simp add: writable_def trim_space_ascii_word)
  have cutl: "cut CHR ''='' ?l = Some (k, ?v)"
    using assms by (intro cut_append) (simp add: writable_def)
  have cr: "drop_cr ?l = ?l" by (simp add: drop_cr_def)
  have q: "trim_quotes ?v = v" by (simp add: trim_quotes_def has_quotes_def)
  have len: "\<not> max_line \<le> length ?l" using assms by (simp add: writable_def)
  have head: "\<not> (?l = [] \<or> hd ?l = CHR ''#'')" using c by (simp add: k)
  show ?thesis
    by (simp only: load_lines.simps(2) len if_False cr tl Let_def head cutl tk tv q
        option.case prod.case)
qed

text \<open>
  Property C34: a file of quoted assignments is read back to exactly its assignments, the later
  of two for one key winning; any value without a line break survives.
\<close>

theorem config_file_round_trip:
  assumes "\<forall>kv \<in> set kvs. writable kv"
  shows "load_file (\<lambda>_. Contents (concat (map render_assignment kvs))) path
    = Ok (fold (\<lambda>(k, v) m. m(k \<mapsto> v)) kvs Map.empty)"
proof -
  have "load_lines n (raw_lines (concat (map render_assignment kvs))) m
      = Ok (fold (\<lambda>(k, v) m. m(k \<mapsto> v)) kvs m)" for n m
    using assms
  proof (induction kvs arbitrary: n m)
    case Nil
    then show ?case by (simp add: raw_lines.simps)
  next
    case (Cons kv kvs)
    obtain k v where kv: "kv = (k, v)" by (cases kv)
    from Cons.prems have w: "writable (k, v)" by (simp add: kv)
    let ?l = "k @ CHR ''='' # CHR 0x22 # v @ [CHR 0x22]"
    have "CHR 0x0A \<notin> set ?l" using w newline_not_word by (auto simp: writable_def)
    then have "raw_lines (?l @ CHR 0x0A # concat (map render_assignment kvs))
        = ?l # raw_lines (concat (map render_assignment kvs))"
      by (rule raw_lines_line)
    moreover have "concat (map render_assignment (kv # kvs))
        = ?l @ CHR 0x0A # concat (map render_assignment kvs)"
      by (simp add: kv render_assignment_def)
    moreover have "load_lines (Suc n) (raw_lines (concat (map render_assignment kvs))) (m(k \<mapsto> v))
        = Ok (fold (\<lambda>(k, v) m. m(k \<mapsto> v)) kvs (m(k \<mapsto> v)))"
      by (rule Cons.IH) (use Cons.prems in simp)
    ultimately show ?case
      by (simp only: load_line_rendered [OF w] kv fold_simps prod.case)
  qed
  then show ?thesis by (simp add: load_file_def)
qed

theorem config_file_round_trip_witness:
  "load_file (\<lambda>_. Contents (concat (map render_assignment [(''GATEWAY_SSH_USERNAME'', '' a=#b '')]))) ''f''
    = Ok [''GATEWAY_SSH_USERNAME'' \<mapsto> '' a=#b '']"
  using config_file_round_trip [of "[(''GATEWAY_SSH_USERNAME'', '' a=#b '')]" "''f''"]
  by (simp add: writable_def ascii_word_def max_line_def)

end
