(* ===== verification/Ssh_Model.thy ===== *)
theory Ssh_Model
  imports Config_Model
begin

text \<open>
  The SSH side, \<^verbatim>\<open>internal/sshbridge\<close>: the client made of a valid configuration, opening a
  remote shell step by step with everything it closes again when a step fails, and the remote
  session: reading through the \<^verbatim>\<open>io.Pipe\<close> the shell writes to, writing, resizing and closing
  once. What the file system and \<^verbatim>\<open>golang.org/x/crypto/ssh\<close> answer is an argument. The locale
  \<open>console_reader\<close> is the contract of reading and closing that the output loop of a session
  relies on. The properties: a failed opening leaks nothing, a successful one leaves exactly its
  four resources open, and both output streams of the shell are read in order, without loss as
  long as the session is not closed.
\<close>

section \<open>Data\<close>

definition default_term :: string where "default_term = ''xterm-256color''"
definition default_rows :: int where "default_rows = 24"
definition default_columns :: int where "default_columns = 80"

record ssh_client =
  sc_username :: string
  sc_port :: int
  sc_connect_timeout :: int
  sc_private_key_path :: string
  sc_insecure_ignore_host_key :: bool

record session_request =
  sr_ip_address :: string
  sr_account :: string
  sr_term :: string
  sr_rows :: int
  sr_columns :: int

record pty_size =
  pty_rows :: int
  pty_columns :: int

text \<open>The steps of an opening that can fail, with the texts they prefix.\<close>

datatype open_stage =
    ReadKey
  | ParseKey
  | DialTarget
  | Handshake
  | CreateSession
  | StdinPipe
  | RequestPty
  | StartShell

fun stage_text :: "open_stage \<Rightarrow> string" where
  "stage_text ReadKey = ''read ssh private key''"
| "stage_text ParseKey = ''parse ssh private key''"
| "stage_text DialTarget = ''dial ssh target''"
| "stage_text Handshake = ''establish ssh client connection''"
| "stage_text CreateSession = ''create ssh session''"
| "stage_text StdinPipe = ''open ssh stdin pipe''"
| "stage_text RequestPty = ''request pty''"
| "stage_text StartShell = ''start shell''"

datatype open_error = HostKeyUnverified | StageFailed open_stage string

fun open_error_text :: "open_error \<Rightarrow> string" where
  "open_error_text HostKeyUnverified =
     ''host key verification is not implemented for the current MVP; set ''
       @ env_ssh_insecure_ignore_host_key @ ''=true''"
| "open_error_text (StageFailed s e) = stage_text s @ '': '' @ e"

text \<open>What an opening does, in order. A stage is recorded when it succeeded.\<close>

datatype ssh_call =
    Dialed string
  | Established string
  | SessionCreated
  | StdinOpened
  | Setenv string string
  | PtyRequested string int int
  | ShellStarted
  | CloseNetConn
  | CloseClient
  | CloseSession
  | CloseStdin
  | ClosePipeWriter
  | WindowChange int int

text \<open>Why a stage fails, when it does: the file system's and the SSH library's answers.\<close>

type_synonym ssh_env = "open_stage \<Rightarrow> string option"

section \<open>The remote session\<close>

text \<open>
  \<^verbatim>\<open>io.Pipe\<close>: the writes waiting for a reader, the first perhaps partly read, and whether an end
  was closed. A closed pipe reads as its end at once, writes that wait are lost.
\<close>

record pipe =
  pipe_waiting :: "string list"
  pipe_closed :: bool

text \<open>
  Where the SSH session sends the two output streams of the remote shell: a stream that is left
  nil is discarded.
\<close>

datatype output_sink = Discarded | PipeWriter

record shell_output =
  so_stdout :: output_sink
  so_stderr :: output_sink

record remote_session =
  rs_output :: shell_output
  rs_pipe :: pipe
  rs_close_done :: bool

datatype read_status = ReadMore | ReadEOF

definition wired_output :: shell_output where
  "wired_output = \<lparr>so_stdout = PipeWriter, so_stderr = PipeWriter\<rparr>"

definition new_remote_session :: remote_session where
  "new_remote_session =
     \<lparr>rs_output = wired_output, rs_pipe = \<lparr>pipe_waiting = [], pipe_closed = False\<rparr>,
      rs_close_done = False\<rparr>"

section \<open>Opening\<close>

definition new_ssh_client ::
  "(string \<Rightarrow> (string \<times> string) option) \<Rightarrow> config \<Rightarrow> (config_error, ssh_client) result" where
  "new_ssh_client parse_url c =
     and_then (validate parse_url c) (\<lambda>_. Ok
       \<lparr>sc_username = ssh_username (cfg_ssh c), sc_port = ssh_port (cfg_ssh c),
        sc_connect_timeout = ssh_connect_timeout (cfg_ssh c),
        sc_private_key_path = secrets_ssh_private_key_path (cfg_secrets c),
        sc_insecure_ignore_host_key = ssh_insecure_ignore_host_key (cfg_ssh c)\<rparr>)"

definition host_key_callback :: "ssh_client \<Rightarrow> (open_error, unit) result" where
  "host_key_callback c =
     (if sc_insecure_ignore_host_key c then Ok () else Err HostKeyUnverified)"

text \<open>\<^verbatim>\<open>net.JoinHostPort\<close>: a host with a colon goes into brackets.\<close>

definition join_host_port :: "string \<Rightarrow> string \<Rightarrow> string" where
  "join_host_port host port =
     (if CHR '':'' \<in> set host then ''['' @ host @ '']:'' @ port else host @ '':'' @ port)"

definition ssh_target :: "ssh_client \<Rightarrow> session_request \<Rightarrow> string" where
  "ssh_target c q = join_host_port (sr_ip_address q) (show_int (sc_port c))"

definition effective_request :: "ssh_client \<Rightarrow> session_request \<Rightarrow> session_request" where
  "effective_request c q = q
     \<lparr>sr_account := (if sr_account q = [] then sc_username c else sr_account q),
      sr_rows := (if sr_rows q \<le> 0 then default_rows else sr_rows q),
      sr_columns := (if sr_columns q \<le> 0 then default_columns else sr_columns q),
      sr_term := (if sr_term q = [] then default_term else sr_term q)\<rparr>"

text \<open>A stage: the error after the closing calls, or on with the rest after its own call.\<close>

definition stage ::
  "ssh_env \<Rightarrow> open_stage \<Rightarrow> ssh_call list \<Rightarrow> ssh_call list
     \<Rightarrow> ssh_call list \<times> (open_error, 'a) result \<Rightarrow> ssh_call list \<times> (open_error, 'a) result" where
  "stage env s undo did rest =
     (case env s of
        Some e \<Rightarrow> (undo, Err (StageFailed s e))
      | None \<Rightarrow> (did @ fst rest, snd rest))"

definition ssh_open ::
  "ssh_client \<Rightarrow> ssh_env \<Rightarrow> session_request
     \<Rightarrow> ssh_call list \<times> (open_error, remote_session) result" where
  "ssh_open c env request =
     (case host_key_callback c of
        Inl e \<Rightarrow> ([], Err e)
      | Inr _ \<Rightarrow>
          (let q = effective_request c request in
           stage env ReadKey [] []
          (stage env ParseKey [] []
          (stage env DialTarget [] [Dialed (ssh_target c q)]
          (stage env Handshake [CloseNetConn] [Established (sr_account q)]
          (stage env CreateSession [CloseClient] [SessionCreated]
          (stage env StdinPipe [CloseSession, CloseClient]
             [StdinOpened, Setenv ''LANG'' ''C.UTF-8'', Setenv ''LC_ALL'' ''C.UTF-8'']
          (stage env RequestPty [CloseStdin, CloseSession, CloseClient]
             [PtyRequested (sr_term q) (sr_rows q) (sr_columns q)]
          (stage env StartShell [CloseStdin, CloseSession, CloseClient] [ShellStarted]
             ([], Ok new_remote_session))))))))))"

section \<open>Operations of the remote session\<close>

definition pipe_write :: "string \<Rightarrow> pipe \<Rightarrow> pipe" where
  "pipe_write w p = (if pipe_closed p then p else p\<lparr>pipe_waiting := pipe_waiting p @ [w]\<rparr>)"

text \<open>\<open>None\<close> when the read has to wait.\<close>

definition pipe_read :: "nat \<Rightarrow> pipe \<Rightarrow> ((string \<times> read_status) \<times> pipe) option" where
  "pipe_read n p =
     (if pipe_closed p then Some (([], ReadEOF), p)
      else case pipe_waiting p of
        [] \<Rightarrow> None
      | w # ws \<Rightarrow>
          Some ((take n w, ReadMore),
                p\<lparr>pipe_waiting := (if drop n w = [] then ws else drop n w # ws)\<rparr>))"

definition rs_read :: "nat \<Rightarrow> remote_session \<Rightarrow> ((string \<times> read_status) \<times> remote_session) option" where
  "rs_read n s =
     (case pipe_read n (rs_pipe s) of
        None \<Rightarrow> None
      | Some (r, p) \<Rightarrow> Some (r, s\<lparr>rs_pipe := p\<rparr>))"

text \<open>The answer of the channel's stdin is an argument.\<close>

definition rs_write :: "(string \<Rightarrow> string option) \<Rightarrow> string \<Rightarrow> string option" where
  "rs_write stdin_write buffer = stdin_write buffer"

definition rs_resize ::
  "(int \<Rightarrow> int \<Rightarrow> string option) \<Rightarrow> pty_size \<Rightarrow> ssh_call list \<times> string option" where
  "rs_resize window_change pty =
     (if pty_rows pty \<le> 0 \<or> pty_columns pty \<le> 0
      then ([], Some ''pty size must be greater than zero'')
      else ([WindowChange (pty_rows pty) (pty_columns pty)],
            window_change (pty_rows pty) (pty_columns pty)))"

text \<open>The errors of closing the SSH session and the client are arguments.\<close>

definition rs_close ::
  "string option \<Rightarrow> string option \<Rightarrow> remote_session
     \<Rightarrow> (ssh_call list \<times> string option) \<times> remote_session" where
  "rs_close session_err client_err s =
     (if rs_close_done s then (([], None), s)
      else (([CloseStdin, ClosePipeWriter, CloseSession, CloseClient],
             (case session_err of Some e \<Rightarrow> Some e | None \<Rightarrow> client_err)),
            s\<lparr>rs_pipe := (rs_pipe s)\<lparr>pipe_closed := True\<rparr>, rs_close_done := True\<rparr>))"

section \<open>The contract of a console\<close>

text \<open>
  What a session relies on: a closed console reads as ended, at once and for good. The output
  loop's fate after closing follows from it.
\<close>

locale console_reader =
  fixes con_read :: "nat \<Rightarrow> 's \<Rightarrow> ((string \<times> read_status) \<times> 's) option"
    and con_close :: "'s \<Rightarrow> 's"
    and con_closed :: "'s \<Rightarrow> bool"
    and con_inv :: "'s \<Rightarrow> bool"
  assumes close_inv: "con_inv s \<Longrightarrow> con_inv (con_close s)"
    and read_inv: "con_inv s \<Longrightarrow> con_read n s = Some (r, s') \<Longrightarrow> con_inv s'"
    and close_closed: "con_inv s \<Longrightarrow> con_closed (con_close s)"
    and read_closed: "con_inv s \<Longrightarrow> con_closed s \<Longrightarrow>
      \<exists>s'. con_read n s = Some (([], ReadEOF), s') \<and> con_closed s'"
    and close_again: "con_inv s \<Longrightarrow> con_close (con_close s) = con_close s"
    and eof_closed: "con_inv s \<Longrightarrow> con_read n s = Some ((d, ReadEOF), s') \<Longrightarrow> con_closed s"
begin

lemma read_after_close: "con_inv s \<Longrightarrow> \<exists>s'. con_read n (con_close s) = Some (([], ReadEOF), s')"
  using read_closed [OF close_inv close_closed] by blast

lemma open_never_eof:
  "con_inv s \<Longrightarrow> \<not> con_closed s \<Longrightarrow> con_read n s = Some ((d, st), s') \<Longrightarrow> st = ReadMore"
  using eof_closed by (cases st) auto

lemma eof_iff_closed:
  "con_inv s \<Longrightarrow> con_closed s \<longleftrightarrow> (\<exists>s'. con_read n s = Some (([], ReadEOF), s'))"
  using read_closed eof_closed by blast

end

text \<open>Only closing the session closes the pipe.\<close>

definition session_wf :: "remote_session \<Rightarrow> bool" where
  "session_wf s \<longleftrightarrow> (pipe_closed (rs_pipe s) \<longleftrightarrow> rs_close_done s)"

definition closed_session :: "remote_session \<Rightarrow> remote_session" where
  "closed_session s = snd (rs_close None None s)"

lemmas remote_session_defs =
  rs_read_def rs_close_def pipe_read_def pipe_write_def session_wf_def closed_session_def
  new_remote_session_def

lemma session_wf_read: "session_wf s \<Longrightarrow> rs_read n s = Some (r, s') \<Longrightarrow> session_wf s'"
  by (auto simp: remote_session_defs split: option.splits list.splits if_splits)

interpretation cr: console_reader rs_read closed_session rs_close_done session_wf
  by unfold_locales
    (auto simp: remote_session_defs split: option.splits list.splits if_splits)

section \<open>The life of a console\<close>

text \<open>
  Who touches the pipe: the SSH library, which copies the output of the shell to where the session
  says, as its documentation has it, the output loop, which reads, and the session, which closes.
  A write that comes while another one waits is a later one. \<open>cn_read\<close> is all that was read.
\<close>

datatype shell_stream = ShellStdout | ShellStderr

datatype console_event = ShellOutput shell_stream string | LocalRead nat | LocalClose

record console_run =
  cn_session :: remote_session
  cn_read :: string

fun stream_sink :: "shell_stream \<Rightarrow> remote_session \<Rightarrow> output_sink" where
  "stream_sink ShellStdout s = so_stdout (rs_output s)"
| "stream_sink ShellStderr s = so_stderr (rs_output s)"

fun console_step :: "console_event \<Rightarrow> console_run \<Rightarrow> console_run" where
  "console_step (ShellOutput f w) c =
     (let s = cn_session c in
      case stream_sink f s of
        Discarded \<Rightarrow> c
      | PipeWriter \<Rightarrow> c\<lparr>cn_session := s\<lparr>rs_pipe := pipe_write w (rs_pipe s)\<rparr>\<rparr>)"
| "console_step (LocalRead n) c =
     (case rs_read n (cn_session c) of
        None \<Rightarrow> c
      | Some ((d, st), s) \<Rightarrow> c\<lparr>cn_session := s, cn_read := cn_read c @ d\<rparr>)"
| "console_step LocalClose c = c\<lparr>cn_session := closed_session (cn_session c)\<rparr>"

definition run_console :: "remote_session \<Rightarrow> console_event list \<Rightarrow> console_run" where
  "run_console s es = fold console_step es \<lparr>cn_session = s, cn_read = []\<rparr>"

text \<open>What the shell wrote to either stream before the session was closed.\<close>

fun shell_bytes :: "console_event list \<Rightarrow> string" where
  "shell_bytes [] = []"
| "shell_bytes (ShellOutput f w # es) = w @ shell_bytes es"
| "shell_bytes (LocalRead n # es) = shell_bytes es"
| "shell_bytes (LocalClose # es) = []"

definition waiting :: "console_run \<Rightarrow> string" where
  "waiting c = concat (pipe_waiting (rs_pipe (cn_session c)))"

definition console_open :: "console_run \<Rightarrow> bool" where
  "console_open c \<longleftrightarrow> session_wf (cn_session c) \<and> rs_output (cn_session c) = wired_output
     \<and> \<not> rs_close_done (cn_session c)"

definition console_shut :: "console_run \<Rightarrow> bool" where
  "console_shut c \<longleftrightarrow> session_wf (cn_session c) \<and> rs_close_done (cn_session c)"

lemmas console_defs = console_open_def console_shut_def waiting_def wired_output_def remote_session_defs

lemma shell_output_waits:
  assumes "console_open c"
  shows "console_open (console_step (ShellOutput f w) c)"
    and "cn_read (console_step (ShellOutput f w) c) = cn_read c"
    and "waiting (console_step (ShellOutput f w) c) = waiting c @ w"
proof -
  have sink: "stream_sink f (cn_session c) = PipeWriter"
    using assms by (cases f) (simp_all add: console_open_def wired_output_def)
  show "console_open (console_step (ShellOutput f w) c)"
    and "cn_read (console_step (ShellOutput f w) c) = cn_read c"
    and "waiting (console_step (ShellOutput f w) c) = waiting c @ w"
    using assms by (simp_all add: sink console_open_def waiting_def session_wf_def pipe_write_def Let_def)
qed

lemma read_takes_waiting:
  assumes "console_open c"
  shows "console_open (console_step (LocalRead n) c)"
    and "cn_read (console_step (LocalRead n) c) @ waiting (console_step (LocalRead n) c) = cn_read c @ waiting c"
  using assms by (auto simp: console_defs split: list.split)

lemma closing_shuts:
  "console_open c \<Longrightarrow> console_shut (console_step LocalClose c) \<and> cn_read (console_step LocalClose c) = cn_read c
     \<and> waiting (console_step LocalClose c) = waiting c"
  by (simp add: console_defs)

lemma shut_for_good:
  "console_shut c \<Longrightarrow> console_shut (console_step e c) \<and> cn_read (console_step e c) = cn_read c
     \<and> waiting (console_step e c) = waiting c"
  by (cases e) (auto simp: console_defs Let_def split: output_sink.split)

lemma shut_run:
  "console_shut c \<Longrightarrow> console_shut (fold console_step es c) \<and> cn_read (fold console_step es c) = cn_read c
     \<and> waiting (fold console_step es c) = waiting c"
  by (induction es arbitrary: c) (auto simp: shut_for_good)

lemma console_accounts:
  assumes "console_open c"
  shows "cn_read (fold console_step es c) @ waiting (fold console_step es c)
      = cn_read c @ waiting c @ shell_bytes es
    \<and> (if LocalClose \<in> set es then console_shut (fold console_step es c)
       else console_open (fold console_step es c))"
  using assms
proof (induction es arbitrary: c rule: shell_bytes.induct)
  case (2 f w es)
  then show ?case
    using shell_output_waits [OF 2(2), of f w] by (simp del: console_step.simps)
next
  case (3 n es)
  have "cn_read (console_step (LocalRead n) c) @ waiting (console_step (LocalRead n) c) @ x
      = cn_read c @ waiting c @ x" for x
    using read_takes_waiting(2) [OF 3(2)] by (metis append.assoc)
  then show ?case
    using 3(1) [OF read_takes_waiting(1) [OF 3(2)]] by (simp del: console_step.simps)
next
  case (4 es)
  then show ?case using shut_run [of "console_step LocalClose c" es] closing_shuts [of c]
    by (simp del: console_step.simps)
qed simp

text \<open>Reading on delivers what waits.\<close>

lemma read_progress:
  assumes "console_open c" and "pipe_waiting (rs_pipe (cn_session c)) \<noteq> []" and "0 < n"
  shows "(\<Sum>w\<leftarrow>pipe_waiting (rs_pipe (cn_session (console_step (LocalRead n) c))). Suc (length w))
    < (\<Sum>w\<leftarrow>pipe_waiting (rs_pipe (cn_session c)). Suc (length w))"
  using assms by (auto simp: console_defs neq_Nil_conv)

lemma reads_deliver:
  assumes "console_open c" and "0 < n"
  shows "\<exists>k. cn_read (fold console_step (replicate k (LocalRead n)) c) = cn_read c @ waiting c"
  using assms(1)
proof (induction "\<Sum>w\<leftarrow>pipe_waiting (rs_pipe (cn_session c)). Suc (length w)" arbitrary: c rule: less_induct)
  case less
  show ?case
  proof (cases "pipe_waiting (rs_pipe (cn_session c)) = []")
    case True
    then show ?thesis by (intro exI [of _ 0]) (simp add: waiting_def)
  next
    case False
    from less(1) [OF read_progress [OF less(2) False assms(2)] read_takes_waiting(1) [OF less(2)]]
    obtain k where "cn_read (fold console_step (replicate k (LocalRead n)) (console_step (LocalRead n) c))
        = cn_read c @ waiting c"
      using read_takes_waiting(2) [OF less(2)] by metis
    then show ?thesis by (intro exI [of _ "Suc k"]) simp
  qed
qed

section \<open>Resources of an opening\<close>

datatype ssh_resource = NetConn | SshClient | SshSession | SshStdin

text \<open>The open resources after a call; the client owns the connection it was made of.\<close>

fun resources_after :: "ssh_call \<Rightarrow> ssh_resource set \<Rightarrow> ssh_resource set" where
  "resources_after (Dialed a) r = insert NetConn r"
| "resources_after (Established u) r = insert SshClient r"
| "resources_after SessionCreated r = insert SshSession r"
| "resources_after StdinOpened r = insert SshStdin r"
| "resources_after CloseNetConn r = r - {NetConn}"
| "resources_after CloseClient r = r - {SshClient, NetConn}"
| "resources_after CloseSession r = r - {SshSession}"
| "resources_after CloseStdin r = r - {SshStdin}"
| "resources_after _ r = r"

definition resources :: "ssh_call list \<Rightarrow> ssh_resource set" where
  "resources cs = fold resources_after cs {}"

section \<open>Properties\<close>

text \<open>The outcome alone: the first stage that fails.\<close>

definition open_stages :: "open_stage list" where
  "open_stages =
     [ReadKey, ParseKey, DialTarget, Handshake, CreateSession, StdinPipe, RequestPty, StartShell]"

fun first_failed :: "ssh_env \<Rightarrow> open_stage list \<Rightarrow> (open_error, remote_session) result" where
  "first_failed env [] = Ok new_remote_session"
| "first_failed env (s # ss) =
     (case env s of Some e \<Rightarrow> Err (StageFailed s e) | None \<Rightarrow> first_failed env ss)"

lemma ssh_open_result:
  "snd (ssh_open c env q) =
     (if sc_insecure_ignore_host_key c then first_failed env open_stages else Err HostKeyUnverified)"
  by (simp add: ssh_open_def stage_def host_key_callback_def open_stages_def Let_def split: option.split)

lemma all_stages: "s \<in> set open_stages"
  by (cases s) (simp_all add: open_stages_def)

lemma first_failed_ok: "is_ok (first_failed env ss) \<longleftrightarrow> (\<forall>s \<in> set ss. env s = None)"
  by (induction env ss rule: first_failed.induct) (auto split: option.split)

lemma first_failed_Ok: "first_failed env ss = Ok s \<Longrightarrow> s = new_remote_session"
  by (induction env ss rule: first_failed.induct) (auto split: option.splits)

lemma first_failed_error:
  "first_failed env ss = Err e \<Longrightarrow> \<exists>s t. e = StageFailed s t \<and> env s = Some t"
  by (induction env ss rule: first_failed.induct) (auto split: option.splits)

lemma shell_started_ok:
  "ShellStarted \<in> set (fst (ssh_open c env q)) \<Longrightarrow> is_ok (snd (ssh_open c env q))"
  by (simp add: ssh_open_def stage_def host_key_callback_def Let_def split: option.splits if_splits)

text \<open>
  Property C16: opening a shell leaks nothing. Whatever step fails, the connection, the client, the
  session and its input are closed again; a success leaves exactly them open, and closing the
  remote session then closes them all.
\<close>

theorem ssh_open_leaks_nothing:
  "resources (fst (ssh_open c env q)) =
     (if is_ok (snd (ssh_open c env q)) then {NetConn, SshClient, SshSession, SshStdin} else {}) \<and>
   (is_ok (snd (ssh_open c env q)) \<longrightarrow>
      resources (fst (ssh_open c env q) @ fst (fst (rs_close e1 e2 new_remote_session))) = {})"
  by (auto simp: ssh_open_def stage_def resources_def Let_def host_key_callback_def rs_close_def
      new_remote_session_def split: option.split)

definition all_answers_good :: ssh_env where
  "all_answers_good = (\<lambda>s. None)"

lemma first_failed_good: "first_failed all_answers_good ss = Ok new_remote_session"
  by (induction ss) (simp_all add: all_answers_good_def)

definition sample_client :: ssh_client where
  "sample_client =
     \<lparr>sc_username = ''pi'', sc_port = 22, sc_connect_timeout = 5, sc_private_key_path = ''k'',
      sc_insecure_ignore_host_key = True\<rparr>"

definition sample_request :: session_request where
  "sample_request =
     \<lparr>sr_ip_address = ''fe80::1'', sr_account = [], sr_term = [], sr_rows = 0, sr_columns = 0\<rparr>"

theorem ssh_open_leaks_nothing_witness:
  "resources (fst (ssh_open sample_client all_answers_good sample_request)
     @ fst (fst (rs_close None None new_remote_session))) = {}"
proof -
  have "is_ok (snd (ssh_open sample_client all_answers_good sample_request))" by code_simp
  then show ?thesis
    using ssh_open_leaks_nothing [of sample_client all_answers_good sample_request None None] by blast
qed

text \<open>
  An opening succeeds exactly when host keys are ignored and every step does. Then a
  shell was started for the requested account, or the configured one, on the address of the
  request, in a terminal with a type and a positive size. Otherwise the error names the first
  step that failed.
\<close>

theorem ssh_open_success:
  "(if sc_insecure_ignore_host_key c \<and> (\<forall>s. env s = None)
    then snd (ssh_open c env q) = Ok new_remote_session
      \<and> (\<exists>user term rows cols.
          {Dialed (join_host_port (sr_ip_address q) (show_int (sc_port c))), Established user,
           PtyRequested term rows cols, ShellStarted} \<subseteq> set (fst (ssh_open c env q))
          \<and> user = (if sr_account q = [] then sc_username c else sr_account q)
          \<and> term \<noteq> [] \<and> 0 < rows \<and> 0 < cols)
    else ShellStarted \<notin> set (fst (ssh_open c env q))
      \<and> (snd (ssh_open c env q) = Err HostKeyUnverified \<and> \<not> sc_insecure_ignore_host_key c
         \<or> (\<exists>s e. snd (ssh_open c env q) = Err (StageFailed s e) \<and> env s = Some e)))"
proof (cases "sc_insecure_ignore_host_key c \<and> (\<forall>s. env s = None)")
  case True
  then show ?thesis
    by (simp add: ssh_open_def stage_def host_key_callback_def effective_request_def Let_def
        ssh_target_def default_term_def default_rows_def default_columns_def)
next
  case False
  then have err: "\<not> is_ok (snd (ssh_open c env q))"
    by (auto simp: ssh_open_result first_failed_ok all_stages)
  then have "ShellStarted \<notin> set (fst (ssh_open c env q))"
    using shell_started_ok by blast
  moreover obtain e where "snd (ssh_open c env q) = Err e"
    using err by (cases "snd (ssh_open c env q)") auto
  moreover have "e = HostKeyUnverified \<and> \<not> sc_insecure_ignore_host_key c
      \<or> (\<exists>s t. e = StageFailed s t \<and> env s = Some t)"
    using calculation(2) first_failed_error [of env open_stages e]
    by (simp add: ssh_open_result split: if_splits)
  ultimately show ?thesis unfolding if_not_P [OF False] by blast
qed

text \<open>
  A client exists only for a configuration that passes validation, and takes its
  settings from it.
\<close>

theorem new_ssh_client_valid:
  "new_ssh_client parse_url cfg = Ok c \<longleftrightarrow>
     validate parse_url cfg = Ok () \<and> sc_username c = ssh_username (cfg_ssh cfg)
     \<and> sc_port c = ssh_port (cfg_ssh cfg) \<and> sc_connect_timeout c = ssh_connect_timeout (cfg_ssh cfg)
     \<and> sc_private_key_path c = secrets_ssh_private_key_path (cfg_secrets cfg)
     \<and> sc_insecure_ignore_host_key c = ssh_insecure_ignore_host_key (cfg_ssh cfg)"
  by (cases "validate parse_url cfg") (auto simp: new_ssh_client_def)

text \<open>
  Property C31: the output of a shell that was opened reaches the reader. What is read is at any
  time a prefix of what the shell wrote, on its standard output and its standard error, in the
  order of the writes. While the session is not closed nothing of it is lost: reading on, with
  a buffer of any size, delivers the rest. Once the session is closed every read returns the end
  at once, and what was not read by then is lost.
\<close>

theorem shell_output_delivered:
  assumes "snd (ssh_open c env q) = Ok s"
  shows "prefix (cn_read (run_console s es)) (shell_bytes es) \<and>
    (if LocalClose \<in> set es
     then (\<forall>n. rs_read n (cn_session (run_console s es)) =
              Some (([], ReadEOF), cn_session (run_console s es)))
       \<and> (\<forall>es'. cn_read (run_console s (es @ es')) = cn_read (run_console s es))
     else \<forall>n > 0. \<exists>k. cn_read (run_console s (es @ replicate k (LocalRead n))) = shell_bytes es)"
proof -
  let ?c = "\<lparr>cn_session = s, cn_read = []\<rparr>"
  have "s = new_remote_session"
    using assms first_failed_Ok [of env open_stages s] by (simp add: ssh_open_result split: if_splits)
  then have "console_open ?c" "waiting ?c = []" by (simp_all add: console_defs)
  with console_accounts [of ?c es] have
    acc: "cn_read (run_console s es) @ waiting (run_console s es) = shell_bytes es" and
    life: "if LocalClose \<in> set es then console_shut (run_console s es) else console_open (run_console s es)"
    by (simp_all add: run_console_def)
  have "prefix (cn_read (run_console s es)) (shell_bytes es)" using acc by (metis prefixI)
  moreover have "\<exists>k. cn_read (run_console s (es @ replicate k (LocalRead n))) = shell_bytes es"
    if "LocalClose \<notin> set es" "0 < n" for n
    using reads_deliver [of "run_console s es" n] that life acc by (simp add: run_console_def)
  moreover have "rs_read n (cn_session (run_console s es)) =
        Some (([], ReadEOF), cn_session (run_console s es))
      \<and> cn_read (run_console s (es @ es')) = cn_read (run_console s es)"
    if "LocalClose \<in> set es" for n es'
    using shut_run [of "run_console s es" es'] that life
    by (simp add: run_console_def console_shut_def remote_session_defs)
  ultimately show ?thesis by simp
qed

theorem shell_output_delivered_witness:
  "\<exists>k. cn_read (run_console new_remote_session
     ([ShellOutput ShellStdout ''ls'', LocalRead 1, ShellOutput ShellStderr ''!''] @ replicate k (LocalRead 1)))
     = ''ls!''"
proof -
  have "snd (ssh_open sample_client all_answers_good sample_request) = Ok new_remote_session"
    by (simp add: ssh_open_result first_failed_good sample_client_def)
  from shell_output_delivered [OF this,
    of "[ShellOutput ShellStdout ''ls'', LocalRead 1, ShellOutput ShellStderr ''!'']"]
  show ?thesis by simp
qed

text \<open>
  Closing is idempotent: the second call does nothing and returns no error, and a
  reader of a closed session sees the end at once.
\<close>

theorem close_once:
  "fst (rs_close e1 e2 (snd (rs_close e3 e4 s))) = ([], None) \<and>
   snd (rs_close e1 e2 (snd (rs_close e3 e4 s))) = snd (rs_close e3 e4 s) \<and>
   (session_wf s \<longrightarrow> (\<exists>s'. rs_read n (snd (rs_close e3 e4 s)) = Some (([], ReadEOF), s')))"
proof -
  have eq: "snd (rs_close a b s) = closed_session s" for a b
    by (simp add: rs_close_def closed_session_def)
  have "rs_close_done (closed_session s)" by (simp add: rs_close_def closed_session_def)
  then have "rs_close a b (closed_session s) = (([], None), closed_session s)" for a b
    by (simp add: rs_close_def)
  then show ?thesis unfolding eq using cr.read_after_close [of s n] by simp
qed

theorem close_once_witness:
  "\<exists>s'. rs_read 1 (snd (rs_close (Some ''e'') None new_remote_session)) = Some (([], ReadEOF), s')"
  using close_once [of None None "Some ''e''" None new_remote_session 1]
  by (auto simp: session_wf_def new_remote_session_def)

text \<open>A size that is not positive never reaches the remote terminal.\<close>

theorem resize_positive:
  "(if 0 < pty_rows z \<and> 0 < pty_columns z
    then rs_resize wc z = ([WindowChange (pty_rows z) (pty_columns z)], wc (pty_rows z) (pty_columns z))
    else rs_resize wc z = ([], Some ''pty size must be greater than zero''))"
  by (auto simp: rs_resize_def)

end
