(* ===== verification/Grants_Model.thy ===== *)
theory Grants_Model
  imports Go_Json
begin

text \<open>
  Grant validation against the backend, \<^verbatim>\<open>internal/grants/client.go\<close>: the client, its request,
  the classification of every answer, and the error values. The HTTP exchange is an argument:
  whether a request can be built for a URL, and what sending it gives. The locale
  \<open>grant_validator\<close> is the contract of the \<^verbatim>\<open>Validator\<close> interface the handler relies on; the
  client is an interpretation of it for every backend.
\<close>

section \<open>Data\<close>

definition validation_path :: string where
  "validation_path = ''/api/gateway/1/validateToken''"

record grant_client =
  gc_base_url :: string
  gc_timeout :: int

record error_response =
  er_code :: string
  er_message :: string

record validation_result =
  vr_ip_address :: string
  vr_raw_response :: string

text \<open>The \<open>Err\<close> of a backend error: why the body was not read, or that it did not decode.\<close>

datatype backend_cause = ReadCause string | DecodeCause

datatype grant_error =
    TransportError string
  | InvalidGrantError int string string
  | BackendError int string string "backend_cause option"
  | RequestError string

definition backend_text :: "int \<Rightarrow> string \<Rightarrow> string" where
  "backend_text status text = ''backend validation failed ('' @ show_int status @ ''): '' @ text"

text \<open>The \<open>Error\<close> methods; the text of a cause is the argument.\<close>

fun grant_error_text :: "(backend_cause \<Rightarrow> string) \<Rightarrow> grant_error \<Rightarrow> string" where
  "grant_error_text cause (TransportError e) = ''grant validation transport failed: '' @ e"
| "grant_error_text cause (InvalidGrantError status code text) =
     ''grant rejected ('' @ show_int status @ ''): '' @ text"
| "grant_error_text cause (BackendError status code text None) = backend_text status text"
| "grant_error_text cause (BackendError status code text (Some e)) =
     backend_text status text @ '': '' @ cause e"
| "grant_error_text cause (RequestError e) = ''build validation request: '' @ e"

text \<open>A request, and what sending it gives: no response, or a status with a readable body or not.\<close>

record http_request =
  rq_method :: string
  rq_url :: string
  rq_headers :: "(string \<times> string) list"
  rq_body :: string

datatype http_outcome =
    NoResponse string
  | BrokenBody int string
  | Response int string

text \<open>The exchange: why a request for a URL cannot be built, and the answer to a request.\<close>

record backend =
  bk_build_error :: "string \<Rightarrow> string option"
  bk_send :: "http_request \<Rightarrow> http_outcome"

definition grant_spec :: field_spec where
  "grant_spec = [(''ipAddress'', FString)]"

definition error_response_spec :: field_spec where
  "error_response_spec = [(''code'', FString), (''message'', FString)]"

section \<open>Operations\<close>

definition new_client :: "string \<Rightarrow> int \<Rightarrow> grant_client" where
  "new_client base_url timeout =
     \<lparr>gc_base_url = trim_right_byte CHR ''/'' base_url, gc_timeout = timeout\<rparr>"

definition is_invalid_grant_status :: "int \<Rightarrow> bool" where
  "is_invalid_grant_status status \<longleftrightarrow> status \<in> {401, 403, 404, 409, 410, 422}"

definition decode_error_response :: "string \<Rightarrow> error_response" where
  "decode_error_response body =
     (let fallback =
        (let text = trim_space body
         in \<lparr>er_code = ''backend_error'',
             er_message = (if text = [] then ''Bad Gateway'' else text)\<rparr>)
      in case unmarshal error_response_spec body of
           None \<Rightarrow> fallback
         | Some p \<Rightarrow>
             if str_of (p ''code'') \<noteq> [] \<or> str_of (p ''message'') \<noteq> []
             then \<lparr>er_code = str_of (p ''code''), er_message = str_of (p ''message'')\<rparr>
             else fallback)"

definition validation_request :: "grant_client \<Rightarrow> string \<Rightarrow> http_request" where
  "validation_request c token =
     \<lparr>rq_method = ''POST'', rq_url = gc_base_url c @ validation_path,
      rq_headers = [(''Content-Type'', ''application/json''), (''Accept'', ''application/json'')],
      rq_body = marshal_struct [(''token'', VStr token)]\<rparr>"

text \<open>The answer with a readable body.\<close>

definition classify_response :: "int \<Rightarrow> string \<Rightarrow> (grant_error, validation_result) result" where
  "classify_response status body =
     (if status = 200 then
        (case unmarshal grant_spec body of
           None \<Rightarrow> Err (BackendError status [] ''decode validation response'' (Some DecodeCause))
         | Some p \<Rightarrow>
             if trim_space (str_of (p ''ipAddress'')) = []
             then Err (BackendError status [] ''validation response missing ipAddress'' None)
             else Ok \<lparr>vr_ip_address = str_of (p ''ipAddress''), vr_raw_response = body\<rparr>)
      else
        (let e = decode_error_response body in
         if is_invalid_grant_status status
         then Err (InvalidGrantError status (er_code e) (er_message e))
         else Err (BackendError status (er_code e) (er_message e) None)))"

definition validate_token ::
  "grant_client \<Rightarrow> backend \<Rightarrow> string \<Rightarrow> (grant_error, validation_result) result" where
  "validate_token c b token =
     (let t = trim_space token in
      if t = [] then Err (BackendError 0 [] ''token must not be empty'' None)
      else case bk_build_error b (gc_base_url c @ validation_path) of
        Some e \<Rightarrow> Err (RequestError e)
      | None \<Rightarrow>
          (case bk_send b (validation_request c t) of
             NoResponse e \<Rightarrow> Err (TransportError e)
           | BrokenBody status e \<Rightarrow>
               Err (BackendError status [] ''read backend response'' (Some (ReadCause e)))
           | Response status body \<Rightarrow> classify_response status body))"

fun is_transport_error :: "grant_error \<Rightarrow> bool" where
  "is_transport_error (TransportError e) = True"
| "is_transport_error e = False"

fun is_invalid_grant_error :: "grant_error \<Rightarrow> bool" where
  "is_invalid_grant_error (InvalidGrantError s c m) = True"
| "is_invalid_grant_error e = False"

section \<open>The contract of a validator\<close>

locale grant_validator =
  fixes validate :: "string \<Rightarrow> (grant_error, validation_result) result"
  assumes valid_ip: "validate t = Ok r \<Longrightarrow> trim_space (vr_ip_address r) \<noteq> []"
    and blank_token: "trim_space t = [] \<Longrightarrow> \<not> is_ok (validate t)"
    and trimmed_token: "validate (trim_space t) = validate t"
begin

lemma valid_ip_not_empty: "validate t = Ok r \<Longrightarrow> vr_ip_address r \<noteq> []"
  using valid_ip [of t r] by auto

lemma valid_token_not_blank: "validate t = Ok r \<Longrightarrow> trim_space t \<noteq> []"
  using blank_token [of t] by auto

end

lemma classify_response_ip:
  "classify_response status body = Ok r \<Longrightarrow> trim_space (vr_ip_address r) \<noteq> []"
  by (auto simp: classify_response_def Let_def split: if_splits option.splits)

lemma validate_token_ok:
  assumes "validate_token c b token = Ok r"
  shows "\<exists>body. trim_space token \<noteq> []
    \<and> bk_send b (validation_request c (trim_space token)) = Response 200 body
    \<and> classify_response 200 body = Ok r"
  using assms
  by (auto simp: validate_token_def classify_response_def Let_def
      split: if_splits option.splits http_outcome.splits)

interpretation gv: grant_validator "validate_token c b" for c b
proof unfold_locales
  fix t r
  show "validate_token c b t = Ok r \<Longrightarrow> trim_space (vr_ip_address r) \<noteq> []"
    using validate_token_ok [of c b t r] classify_response_ip by blast
  show "trim_space t = [] \<Longrightarrow> \<not> is_ok (validate_token c b t)"
    by (simp add: validate_token_def)
  show "validate_token c b (trim_space t) = validate_token c b t"
    by (simp add: validate_token_def)
qed

section \<open>Properties\<close>

definition token_spec :: field_spec where
  "token_spec = [(''token'', FString)]"

text \<open>
  Property C21: a grant is only accepted on a 200 answer of the backend to a request that carries
  exactly the trimmed token, and its address is the non-blank \<open>ipAddress\<close> of that answer.
\<close>

theorem validate_token_success:
  assumes "validate_token c b token = Ok r" and "utf8_valid (trim_space token)"
  shows "\<exists>p q. bk_send b (validation_request c (trim_space token)) = Response 200 (vr_raw_response r)
    \<and> unmarshal token_spec (rq_body (validation_request c (trim_space token))) = Some q
    \<and> q ''token'' = VStr (trim_space token) \<and> trim_space token \<noteq> []
    \<and> unmarshal grant_spec (vr_raw_response r) = Some p
    \<and> vr_ip_address r = str_of (p ''ipAddress'') \<and> trim_space (vr_ip_address r) \<noteq> []"
proof -
  obtain body where t: "trim_space token \<noteq> []"
    and sent: "bk_send b (validation_request c (trim_space token)) = Response 200 body"
    and cl: "classify_response 200 body = Ok r"
    using validate_token_ok [OF assms(1)] by blast
  from cl obtain p where p: "unmarshal grant_spec body = Some p" "vr_raw_response r = body"
    "vr_ip_address r = str_of (p ''ipAddress'')"
    by (auto simp: classify_response_def split: if_splits option.splits)
  have "find_field token_spec ''token'' = Some (''token'', FString)" by code_simp
  then have "\<exists>q. unmarshal token_spec (rq_body (validation_request c (trim_space token))) = Some q
      \<and> q ''token'' = VStr (trim_space token)"
    using assms(2)
    by (simp add: validation_request_def unmarshal_def json_parse_marshal sanitize_valid
        sanitize_ascii [of "''token''"] Let_def)
  then show ?thesis
    using t sent p classify_response_ip [OF cl] by auto
qed

text \<open>
  Property C32: an answer other than 200 is never a grant; it is an invalid grant for exactly six
  statuses, else a backend error, and always carries a code or a message.
\<close>

theorem classify_response_rejects:
  assumes "status \<noteq> 200"
  shows "\<exists>code text. (code \<noteq> [] \<or> text \<noteq> []) \<and>
    classify_response status body =
      (if status \<in> {401, 403, 404, 409, 410, 422} then Err (InvalidGrantError status code text)
       else Err (BackendError status code text None))"
proof -
  let ?e = "decode_error_response body"
  have "er_code ?e \<noteq> [] \<or> er_message ?e \<noteq> []"
    by (auto simp: decode_error_response_def Let_def split: option.split)
  with assms show ?thesis
    by (intro exI [of _ "er_code ?e"] exI [of _ "er_message ?e"])
      (simp add: classify_response_def is_invalid_grant_status_def Let_def)
qed

theorem classify_response_rejects_witness:
  "\<exists>code text. (code \<noteq> [] \<or> text \<noteq> []) \<and>
     classify_response 403 ''no'' = Err (InvalidGrantError 403 code text)"
  using classify_response_rejects [of 403 "''no''"] by simp

text \<open>The token exchange of a backend that knows one grant.\<close>

definition sample_backend :: backend where
  "sample_backend =
     \<lparr>bk_build_error = (\<lambda>u. None),
      bk_send = (\<lambda>rq. Response 200 (marshal_struct [(''ipAddress'', VStr '' 10.0.0.8'')]))\<rparr>"

lemma sample_validation:
  "validate_token (new_client ''http://b/'' 1) sample_backend '' t '' =
     Ok \<lparr>vr_ip_address = '' 10.0.0.8'',
         vr_raw_response = marshal_struct [(''ipAddress'', VStr '' 10.0.0.8'')]\<rparr>"
  by code_simp

theorem validate_token_success_witness:
  "\<exists>q. unmarshal token_spec (rq_body (validation_request (new_client ''http://b/'' 1) ''t'')) = Some q
     \<and> q ''token'' = VStr ''t''"
proof -
  have "trim_space '' t '' = ''t''" "utf8_valid ''t''" by code_simp+
  then show ?thesis using validate_token_success [OF sample_validation] by auto
qed

text \<open>
  The address is checked in its trimmed form but kept as the backend wrote it: with
  white space around it, it goes on to the dialer with the white space.
\<close>

theorem address_not_trimmed:
  "\<exists>c b r. validate_token c b ''t'' = Ok r \<and> trim_space (vr_ip_address r) \<noteq> vr_ip_address r"
proof -
  have "validate_token (new_client ''http://b/'' 1) sample_backend ''t'' =
     Ok \<lparr>vr_ip_address = '' 10.0.0.8'',
         vr_raw_response = marshal_struct [(''ipAddress'', VStr '' 10.0.0.8'')]\<rparr>"
    by code_simp
  moreover have "trim_space '' 10.0.0.8'' \<noteq> '' 10.0.0.8''" by code_simp
  ultimately show ?thesis by (metis validation_result.select_convs(1))
qed

end
