(* ===== verification/Audit_Model.thy ===== *)
theory Audit_Model
  imports Config_Model
begin

text \<open>
  Audit events and the sink that logs them, \<^verbatim>\<open>internal/audit\<close>. A logger is opaque; a log line
  keeps its level, message and attributes in order.
\<close>

record audit_event =
  ae_name :: string
  ae_session :: string
  ae_fields :: "string \<rightharpoonup> string"

datatype attr_value = AText string | AInt int | AFields "string \<rightharpoonup> string"

record log_line =
  ll_level :: log_level
  ll_message :: string
  ll_attrs :: "(string \<times> attr_value) list"

record 'l logger_sink =
  ls_logger :: "'l option"

text \<open>A nil logger falls back to the default one, the second argument.\<close>

definition new_logger_sink :: "'l option \<Rightarrow> 'l \<Rightarrow> 'l logger_sink" where
  "new_logger_sink logger fallback =
     \<lparr>ls_logger = Some (case logger of None \<Rightarrow> fallback | Some l \<Rightarrow> l)\<rparr>"

text \<open>The lines written, each to its logger, and the error: there is never one.\<close>

definition logger_sink_record ::
  "'l logger_sink option \<Rightarrow> audit_event \<Rightarrow> ('l \<times> log_line) list \<times> string option" where
  "logger_sink_record s e =
     (case s of
        None \<Rightarrow> ([], None)
      | Some k \<Rightarrow>
          (case ls_logger k of
             None \<Rightarrow> ([], None)
           | Some l \<Rightarrow>
               ([(l, \<lparr>ll_level = LevelInfo, ll_message = ''audit event'',
                      ll_attrs = [(''event'', AText (ae_name e)), (''sessionID'', AText (ae_session e)),
                                  (''fields'', AFields (ae_fields e))]\<rparr>)],
                None)))"

text \<open>
  A sink made by \<^verbatim>\<open>NewLoggerSink\<close> never fails and never drops an event: each becomes
  one line that carries its name, session and fields.
\<close>

theorem logger_sink_records_all:
  "\<exists>l line. logger_sink_record (Some (new_logger_sink logger fallback)) e = ([(l, line)], None)
   \<and> {(''event'', AText (ae_name e)), (''sessionID'', AText (ae_session e)), (''fields'', AFields (ae_fields e))}
       = set (ll_attrs line)"
  by (auto simp: logger_sink_record_def new_logger_sink_def)

end
