(* ===== verification/Session_Model.thy ===== *)
theory Session_Model
  imports Conn_Model Ssh_Model Grants_Model Audit_Model
begin

text \<open>
  The sequential parts of a session, \<^verbatim>\<open>internal/session\<close>: states and end reasons, the loop
  results with what they tell the browser, one round of the read loop and of the output loop,
  the audit payload with the fields taken from the grant, the log level of an end, the
  registry's settings, and session identifiers. How the loops of many sessions interleave is the
  subject of \<^verbatim>\<open>Session_System\<close>, which runs these definitions. Random bytes, the answers of the
  connection and of the console are arguments.
\<close>

section \<open>States and reasons\<close>

datatype browser_state = BrowserActive | BrowserClosing | BrowserClosed

text \<open>A session goes through the states in this order.\<close>

fun state_index :: "browser_state \<Rightarrow> nat" where
  "state_index BrowserActive = 0"
| "state_index BrowserClosing = 1"
| "state_index BrowserClosed = 2"

lemma state_index_inject: "state_index a = state_index b \<longleftrightarrow> a = b"
  by (cases a; cases b) simp_all

instantiation browser_state :: linorder
begin

definition less_eq_browser_state :: "browser_state \<Rightarrow> browser_state \<Rightarrow> bool" where
  "less_eq_browser_state a b \<longleftrightarrow> state_index a \<le> state_index b"

definition less_browser_state :: "browser_state \<Rightarrow> browser_state \<Rightarrow> bool" where
  "less_browser_state a b \<longleftrightarrow> state_index a < state_index b"

instance
  by standard (auto simp: less_eq_browser_state_def less_browser_state_def state_index_inject)

end

lemma browser_state_bounds [simp]: "BrowserActive \<le> a" "a \<le> BrowserClosed"
  by (cases a; simp add: less_eq_browser_state_def)+

lemma browser_closed_top: "BrowserClosed \<le> a \<longleftrightarrow> a = BrowserClosed"
  by (simp add: antisym)

datatype end_reason =
    ClientClosed
  | BrowserDisconnect
  | ProtocolViolation
  | SlowClient
  | ServerShutdown
  | InternalError
  | ConsoleClosed
  | SSHError
  | AuthorizeTimeout
  | KeepaliveTimeout
  | SessionLimit

fun browser_state_string :: "browser_state \<Rightarrow> string" where
  "browser_state_string BrowserActive = ''active''"
| "browser_state_string BrowserClosing = ''closing''"
| "browser_state_string BrowserClosed = ''closed''"

fun end_reason_string :: "end_reason \<Rightarrow> string" where
  "end_reason_string ClientClosed = ''client_close''"
| "end_reason_string BrowserDisconnect = ''browser_disconnect''"
| "end_reason_string ProtocolViolation = ''protocol_violation''"
| "end_reason_string SlowClient = ''slow_client''"
| "end_reason_string ServerShutdown = ''server_shutdown''"
| "end_reason_string InternalError = ''internal_error''"
| "end_reason_string ConsoleClosed = ''console_closed''"
| "end_reason_string SSHError = ''ssh_error''"
| "end_reason_string AuthorizeTimeout = ''authorize_timeout''"
| "end_reason_string KeepaliveTimeout = ''keepalive_timeout''"
| "end_reason_string SessionLimit = ''session_limit_reached''"

text \<open>Close codes of RFC 6455, as gorilla names them.\<close>

definition close_normal_closure :: int where "close_normal_closure = 1000"
definition close_going_away :: int where "close_going_away = 1001"
definition close_abnormal_closure :: int where "close_abnormal_closure = 1006"
definition close_policy_violation :: int where "close_policy_violation = 1008"
definition close_internal_server_err :: int where "close_internal_server_err = 1011"
definition close_try_again_later :: int where "close_try_again_later = 1013"

lemmas close_codes =
  close_normal_closure_def close_going_away_def close_abnormal_closure_def
  close_policy_violation_def close_internal_server_err_def close_try_again_later_def

section \<open>Loop results\<close>

record loop_result =
  lr_reason :: end_reason
  lr_close_code :: int
  lr_close_reason :: string
  lr_client_error_code :: string
  lr_client_error_text :: string
  lr_client_close_reason :: string

definition protocol_violation_result :: "protocol_error \<Rightarrow> loop_result" where
  [result_defs]: "protocol_violation_result e =
     \<lparr>lr_reason = ProtocolViolation, lr_close_code = close_policy_violation,
      lr_close_reason = pe_code e, lr_client_error_code = pe_code e,
      lr_client_error_text = pe_message e,
      lr_client_close_reason = end_reason_string ProtocolViolation\<rparr>"

definition internal_error_result :: "string \<Rightarrow> string \<Rightarrow> loop_result" where
  [result_defs]: "internal_error_result code text =
     \<lparr>lr_reason = InternalError, lr_close_code = close_internal_server_err,
      lr_close_reason = code, lr_client_error_code = code, lr_client_error_text = text,
      lr_client_close_reason = end_reason_string InternalError\<rparr>"

definition ssh_error_result :: "string \<Rightarrow> string \<Rightarrow> loop_result" where
  [result_defs]: "ssh_error_result code text =
     \<lparr>lr_reason = SSHError, lr_close_code = close_internal_server_err,
      lr_close_reason = code, lr_client_error_code = code, lr_client_error_text = text,
      lr_client_close_reason = end_reason_string SSHError\<rparr>"

definition slow_client_result :: loop_result where
  [result_defs]: "slow_client_result =
     \<lparr>lr_reason = SlowClient, lr_close_code = close_policy_violation,
      lr_close_reason = ''outbound_queue_exhausted'', lr_client_error_code = ''slow_client'',
      lr_client_error_text = ''browser output queue exhausted'',
      lr_client_close_reason = end_reason_string SlowClient\<rparr>"

text \<open>What the output loop returns instead: the same end without a word to the browser.\<close>

definition output_slow_client_result :: loop_result where
  [result_defs]: "output_slow_client_result =
     \<lparr>lr_reason = SlowClient, lr_close_code = close_policy_violation,
      lr_close_reason = ''outbound_queue_exhausted'', lr_client_error_code = [],
      lr_client_error_text = [], lr_client_close_reason = []\<rparr>"

definition console_closed_result :: loop_result where
  [result_defs]: "console_closed_result =
     \<lparr>lr_reason = ConsoleClosed, lr_close_code = close_normal_closure,
      lr_close_reason = end_reason_string ConsoleClosed, lr_client_error_code = [],
      lr_client_error_text = [], lr_client_close_reason = end_reason_string ConsoleClosed\<rparr>"

definition browser_disconnect_result :: loop_result where
  [result_defs]: "browser_disconnect_result =
     \<lparr>lr_reason = BrowserDisconnect, lr_close_code = close_normal_closure,
      lr_close_reason = end_reason_string BrowserDisconnect, lr_client_error_code = [],
      lr_client_error_text = [], lr_client_close_reason = []\<rparr>"

definition server_shutdown_result :: loop_result where
  [result_defs]: "server_shutdown_result =
     \<lparr>lr_reason = ServerShutdown, lr_close_code = close_going_away,
      lr_close_reason = end_reason_string ServerShutdown, lr_client_error_code = [],
      lr_client_error_text = [], lr_client_close_reason = end_reason_string ServerShutdown\<rparr>"

definition client_close_result :: "string \<Rightarrow> loop_result" where
  [result_defs]: "client_close_result reason =
     \<lparr>lr_reason = ClientClosed, lr_close_code = close_normal_closure,
      lr_close_reason = reason, lr_client_error_code = [],
      lr_client_error_text = [], lr_client_close_reason = reason\<rparr>"

definition keepalive_timeout_result :: loop_result where
  [result_defs]: "keepalive_timeout_result =
     \<lparr>lr_reason = KeepaliveTimeout, lr_close_code = close_going_away,
      lr_close_reason = end_reason_string KeepaliveTimeout, lr_client_error_code = [],
      lr_client_error_text = [], lr_client_close_reason = []\<rparr>"

text \<open>\<open>flush\<close>: the messages written before the close, each with its own write.\<close>

definition flush_messages :: "loop_result \<Rightarrow> message list" where
  "flush_messages r =
     (if lr_client_error_code r = [] then []
      else [new_server_error (lr_client_error_code r) (lr_client_error_text r)])
   @ (if lr_client_close_reason r = [] then []
      else [new_server_close (lr_client_close_reason r)])"

section \<open>The read loop\<close>

text \<open>The console as the loop sees it: the errors of a write and of a resize.\<close>

record console_io =
  ci_write :: "string \<Rightarrow> string option"
  ci_resize :: "pty_size \<Rightarrow> string option"

datatype session_call =
    Touch
  | ConsoleWrite string
  | ConsoleResize pty_size

definition unexpected_authorize :: protocol_error where
  "unexpected_authorize =
     \<lparr>pe_code = ''unexpected_authorize'',
      pe_message = ''authorize is only allowed before the session is active''\<rparr>"

definition unsupported_message :: protocol_error where
  "unsupported_message =
     \<lparr>pe_code = ''unsupported_message'',
      pe_message = ''message type is not supported in the current plan''\<rparr>"

text \<open>
  The end a failed read gives. A \<^verbatim>\<open>ProtocolError\<close> of the connection is none of the three kinds
  asked for.
\<close>

definition read_error_result :: "conn_error \<Rightarrow> loop_result" where
  "read_error_result e =
     (if is_canceled e then server_shutdown_result
      else if is_net_timeout e then keepalive_timeout_result
      else if is_peer_closed e then browser_disconnect_result
      else internal_error_result ''websocket_read_failed'' ''websocket read failed'')"

definition input_payload :: "client_message \<Rightarrow> string" where
  "input_payload p = (case cm_binary p of Some d \<Rightarrow> d | None \<Rightarrow> cm_input p)"

text \<open>An accepted message; \<open>None\<close> goes on reading.\<close>

definition dispatch :: "console_io \<Rightarrow> client_message \<Rightarrow> session_call list \<times> loop_result option" where
  "dispatch io p =
     (case cm_type p of
        MessageTypeAuthorize \<Rightarrow> ([], Some (protocol_violation_result unexpected_authorize))
      | MessageTypeInput \<Rightarrow>
          (if input_payload p = [] then ([], None)
           else ([ConsoleWrite (input_payload p)],
                 (case ci_write io (input_payload p) of
                    Some e \<Rightarrow> Some (ssh_error_result ''ssh_write_failed''
                                      ''failed to write input to ssh session'')
                  | None \<Rightarrow> None)))
      | MessageTypeResize \<Rightarrow>
          (let z = \<lparr>pty_rows = cm_rows p, pty_columns = cm_columns p\<rparr> in
           ([ConsoleResize z],
            (case ci_resize io z of
               Some e \<Rightarrow> Some (ssh_error_result ''resize_failed'' e)
             | None \<Rightarrow> None)))
      | MessageTypeClose \<Rightarrow>
          ([], Some (client_close_result
                 (if cm_reason p = [] then end_reason_string ClientClosed else cm_reason p)))
      | _ \<Rightarrow> ([], Some (protocol_violation_result unsupported_message)))"

text \<open>One round of the loop, on what \<open>ReadMessage\<close> returned.\<close>

definition read_round ::
  "console_io \<Rightarrow> (conn_error, message) result \<Rightarrow> session_call list \<times> loop_result option" where
  "read_round io m =
     (case m of
        Inl e \<Rightarrow> ([], Some (read_error_result e))
      | Inr msg \<Rightarrow>
          (case parse_client_message msg of
             Inl e \<Rightarrow> ([Touch], Some (protocol_violation_result e))
           | Inr p \<Rightarrow> (let (calls, r) = dispatch io p in (Touch # calls, r))))"

text \<open>The loop over the reads that have returned: \<open>None\<close> while it goes on.\<close>

fun read_loop ::
  "console_io \<Rightarrow> (conn_error, message) result list \<Rightarrow> session_call list \<times> loop_result option" where
  "read_loop io [] = ([], None)"
| "read_loop io (m # ms) =
     (case read_round io m of
        (calls, Some r) \<Rightarrow> (calls, Some r)
      | (calls, None) \<Rightarrow> (let (calls', r) = read_loop io ms in (calls @ calls', r)))"

section \<open>The output loop and the keepalive loop\<close>

datatype console_error = ConsoleEOF | ConsoleFailed string

text \<open>The message of a read that delivered something.\<close>

definition output_message :: "string \<Rightarrow> message option" where
  "output_message d = (if d = [] then None else Some (new_server_output d))"

text \<open>The end of a round, once its output was enqueued or not; \<open>None\<close> goes on reading.\<close>

definition output_result :: "bool \<Rightarrow> console_error option \<Rightarrow> loop_result option" where
  "output_result enqueued err =
     (if \<not> enqueued then Some output_slow_client_result
      else (case err of
              None \<Rightarrow> None
            | Some ConsoleEOF \<Rightarrow> Some console_closed_result
            | Some (ConsoleFailed e) \<Rightarrow> Some (ssh_error_result ''ssh_read_failed'' e)))"

text \<open>The result of a ping that failed.\<close>

definition ping_error_result :: "conn_error \<Rightarrow> loop_result" where
  "ping_error_result e =
     (if is_peer_closed e then browser_disconnect_result
      else internal_error_result ''keepalive_ping_failed'' ''failed to write websocket keepalive ping'')"

section \<open>Settings of the registry\<close>

record registry_config =
  rc_keepalive_interval :: int
  rc_keepalive_timeout :: int
  rc_max_concurrent :: int
  rc_outbound_queue_depth :: int
  rc_audit_sink :: bool

definition default_outbound_queue_size :: int where "default_outbound_queue_size = 16"
definition default_keepalive_interval :: int where "default_keepalive_interval = 30 * second"
definition default_keepalive_timeout :: int where "default_keepalive_timeout = 75 * second"
definition default_max_concurrent :: int where "default_max_concurrent = 32"

definition override :: "int \<Rightarrow> int \<Rightarrow> int" where
  "override configured fallback = (if 0 < configured then configured else fallback)"

text \<open>\<^verbatim>\<open>NewRegistry\<close> with at most one configuration; whether a sink is set is kept, not the sink.\<close>

definition new_registry_config :: "registry_config option \<Rightarrow> registry_config" where
  "new_registry_config configs =
     (case configs of
        None \<Rightarrow>
          \<lparr>rc_keepalive_interval = default_keepalive_interval,
           rc_keepalive_timeout = default_keepalive_timeout,
           rc_max_concurrent = default_max_concurrent,
           rc_outbound_queue_depth = default_outbound_queue_size,
           rc_audit_sink = False\<rparr>
      | Some c \<Rightarrow>
          \<lparr>rc_keepalive_interval = override (rc_keepalive_interval c) default_keepalive_interval,
           rc_keepalive_timeout = override (rc_keepalive_timeout c) default_keepalive_timeout,
           rc_max_concurrent = override (rc_max_concurrent c) default_max_concurrent,
           rc_outbound_queue_depth = override (rc_outbound_queue_depth c) default_outbound_queue_size,
           rc_audit_sink = rc_audit_sink c\<rparr>)"

definition at_capacity :: "registry_config \<Rightarrow> nat \<Rightarrow> bool" where
  "at_capacity c count \<longleftrightarrow> 0 < rc_max_concurrent c \<and> rc_max_concurrent c \<le> int count"

section \<open>Identifiers\<close>

definition hex_encode :: "string \<Rightarrow> string" where
  "hex_encode s = concat (map (\<lambda>c. [hex_digit (byte c div 16), hex_digit (byte c mod 16)]) s)"

text \<open>The eight random bytes are an argument.\<close>

definition new_session_id :: "string \<Rightarrow> string" where
  "new_session_id random = hex_encode random"

section \<open>Audit payloads\<close>

text \<open>
  \<^verbatim>\<open>json.Unmarshal\<close> into \<^verbatim>\<open>map[string]any\<close> turns numbers into floats and fails when one does
  not fit: at and above the midpoint between the greatest float and the next power of two. The
  digits of an exponent are only read while the value stays below 10000.
\<close>

fun exponent_value :: "nat \<Rightarrow> string \<Rightarrow> nat" where
  "exponent_value acc [] = acc"
| "exponent_value acc (c # cs) =
     exponent_value (if acc < 10000 then 10 * acc + digit_value c else acc) cs"

definition float_parts :: "string \<Rightarrow> nat \<times> int" where
  "float_parts s =
     (let t = (if starts CHR ''-'' s then tl s else s);
          whole = takeWhile is_digit t;
          r = dropWhile is_digit t;
          frac = (if starts CHR ''.'' r then takeWhile is_digit (tl r) else []);
          r' = (if starts CHR ''.'' r then dropWhile is_digit (tl r) else r);
          e = tl r';
          ex = (if r' = [] then 0
                else if starts CHR ''-'' e then - int (exponent_value 0 (tl e))
                else if starts CHR ''+'' e then int (exponent_value 0 (tl e))
                else int (exponent_value 0 e))
      in (digits_value 0 (whole @ frac), ex - int (length frac)))"

definition float_overflows :: "string \<Rightarrow> bool" where
  "float_overflows s =
     (let (m, e) = float_parts s; limit = 2 ^ 1024 - 2 ^ 970 :: nat in
      if 0 \<le> e then limit \<le> m * 10 ^ nat e else limit * 10 ^ nat (- e) \<le> m)"

fun has_overflow :: "json \<Rightarrow> bool" where
  "has_overflow (JNum s) = float_overflows s"
| "has_overflow (JArr vs) = list_ex has_overflow vs"
| "has_overflow (JObj ms) = list_ex (\<lambda>m. has_overflow (snd m)) ms"
| "has_overflow _ = False"

text \<open>The decoded map: of several members with one name the last counts.\<close>

definition unmarshal_map :: "string \<Rightarrow> (string \<rightharpoonup> json) option" where
  "unmarshal_map raw =
     (case json_parse raw of
        None \<Rightarrow> None
      | Some v \<Rightarrow>
          if has_overflow v then None
          else (case v of
                  JObj ms \<Rightarrow> Some (map_of (rev ms))
                | JNull \<Rightarrow> Some Map.empty
                | _ \<Rightarrow> None))"

definition audit_candidates :: "(string \<times> string list) list" where
  "audit_candidates =
     [(''pin'', [''pin'', ''supportPin'']),
      (''mitarbeiteraccount'', [''mitarbeiteraccount'', ''mitarbeiterAccount'', ''employeeAccount''])]"

text \<open>The first of the keys that holds a text that is not empty.\<close>

fun first_text :: "(string \<rightharpoonup> json) \<Rightarrow> string list \<Rightarrow> string option" where
  "first_text payload [] = None"
| "first_text payload (k # ks) =
     (case payload k of
        Some (JStr t) \<Rightarrow> if t \<noteq> [] then Some t else first_text payload ks
      | _ \<Rightarrow> first_text payload ks)"

fun collect_fields :: "(string \<rightharpoonup> json) \<Rightarrow> (string \<times> string list) list \<Rightarrow> (string \<rightharpoonup> string)" where
  "collect_fields payload [] = Map.empty"
| "collect_fields payload ((target, keys) # cs) =
     (case first_text payload keys of
        Some t \<Rightarrow> (collect_fields payload cs)(target \<mapsto> t)
      | None \<Rightarrow> collect_fields payload cs)"

text \<open>A nil map is the empty one here: the result is only ranged over.\<close>

definition extract_grant_audit_fields :: "string \<Rightarrow> (string \<rightharpoonup> string)" where
  "extract_grant_audit_fields raw =
     (if raw = [] then Map.empty
      else case unmarshal_map raw of
        None \<Rightarrow> Map.empty
      | Some payload \<Rightarrow> collect_fields payload audit_candidates)"

definition audit_payload ::
  "validation_result \<Rightarrow> string \<Rightarrow> (string \<rightharpoonup> string) \<Rightarrow> (string \<rightharpoonup> string)" where
  "audit_payload grant account extra =
     [''ipAddress'' \<mapsto> vr_ip_address grant, ''sshAccount'' \<mapsto> account]
       ++ extract_grant_audit_fields (vr_raw_response grant) ++ extra"

text \<open>The record of a session as \<^verbatim>\<open>recordAuditEvent\<close> and the logging functions see it.\<close>

record session_info =
  si_id :: string
  si_grant :: validation_result
  si_account :: string

definition session_audit_event ::
  "bool \<Rightarrow> session_info \<Rightarrow> string \<Rightarrow> (string \<rightharpoonup> string) \<Rightarrow> audit_event list" where
  "session_audit_event sink s name extra =
     (if \<not> sink then []
      else [\<lparr>ae_name = name, ae_session = si_id s,
             ae_fields = audit_payload (si_grant s) (si_account s) extra\<rparr>])"

definition started_fields :: "registry_config \<Rightarrow> session_info \<Rightarrow> (string \<rightharpoonup> string)" where
  "started_fields c s =
     [''ipAddress'' \<mapsto> vr_ip_address (si_grant s), ''sshAccount'' \<mapsto> si_account s,
      ''keepaliveInterval'' \<mapsto> duration_string (rc_keepalive_interval c),
      ''keepaliveTimeout'' \<mapsto> duration_string (rc_keepalive_timeout c),
      ''outboundQueueDepth'' \<mapsto> show_int (rc_outbound_queue_depth c),
      ''maxConcurrentSessions'' \<mapsto> show_int (rc_max_concurrent c)]"

text \<open>\<^verbatim>\<open>Duration.Milliseconds\<close>, rounding towards zero.\<close>

definition milliseconds :: "int \<Rightarrow> int" where
  "milliseconds d = (if d < 0 then - ((- d) div 1000000) else d div 1000000)"

definition ended_fields ::
  "session_info \<Rightarrow> end_reason \<Rightarrow> int \<Rightarrow> string \<Rightarrow> int \<Rightarrow> (string \<rightharpoonup> string)" where
  "ended_fields s reason code text duration =
     [''ipAddress'' \<mapsto> vr_ip_address (si_grant s), ''sshAccount'' \<mapsto> si_account s,
      ''endReason'' \<mapsto> end_reason_string reason, ''closeCode'' \<mapsto> show_int code,
      ''closeReason'' \<mapsto> text, ''durationMillis'' \<mapsto> show_int (milliseconds duration)]"

text \<open>The event of a session refused for lack of capacity.\<close>

definition rejected_fields :: "registry_config \<Rightarrow> string \<Rightarrow> (string \<rightharpoonup> string)" where
  "rejected_fields c ip =
     [''reason'' \<mapsto> end_reason_string SessionLimit, ''ipAddress'' \<mapsto> ip,
      ''maxConcurrent'' \<mapsto> show_int (rc_max_concurrent c)]"

definition registry_event :: "bool \<Rightarrow> string \<Rightarrow> (string \<rightharpoonup> string) \<Rightarrow> audit_event list" where
  "registry_event sink name extra =
     (if sink then [\<lparr>ae_name = name, ae_session = [], ae_fields = extra\<rparr>] else [])"

section \<open>Log lines\<close>

definition log_start :: "registry_config \<Rightarrow> session_info \<Rightarrow> log_line" where
  "log_start c s =
     \<lparr>ll_level = LevelInfo, ll_message = ''session started'',
      ll_attrs =
        [(''sessionID'', AText (si_id s)), (''ipAddress'', AText (vr_ip_address (si_grant s))),
         (''sshAccount'', AText (si_account s)),
         (''keepaliveInterval'', AText (duration_string (rc_keepalive_interval c))),
         (''keepaliveTimeout'', AText (duration_string (rc_keepalive_timeout c))),
         (''outboundQueueDepth'', AInt (rc_outbound_queue_depth c))]\<rparr>"

fun end_level :: "end_reason \<Rightarrow> log_level" where
  "end_level InternalError = LevelError"
| "end_level SSHError = LevelError"
| "end_level ProtocolViolation = LevelWarn"
| "end_level SlowClient = LevelWarn"
| "end_level AuthorizeTimeout = LevelWarn"
| "end_level KeepaliveTimeout = LevelWarn"
| "end_level SessionLimit = LevelWarn"
| "end_level _ = LevelInfo"

definition log_end ::
  "session_info \<Rightarrow> end_reason \<Rightarrow> int \<Rightarrow> string \<Rightarrow> int \<Rightarrow> nat \<Rightarrow> log_line" where
  "log_end s reason code text duration backlog =
     \<lparr>ll_level = end_level reason, ll_message = ''session ended'',
      ll_attrs =
        [(''sessionID'', AText (si_id s)), (''ipAddress'', AText (vr_ip_address (si_grant s))),
         (''sshAccount'', AText (si_account s)), (''endReason'', AText (end_reason_string reason)),
         (''closeCode'', AInt code), (''closeReason'', AText text),
         (''duration'', AText (duration_string duration)), (''outputBacklog'', AInt (int backlog))]\<rparr>"

section \<open>Properties\<close>

text \<open>What a round does to the console comes from an accepted message of the right type.\<close>

lemma dispatch_calls:
  assumes "dispatch io p = (calls, r)" and "client_message_ok p"
  shows "(\<forall>w. ConsoleWrite w \<in> set calls \<longrightarrow>
       cm_type p = MessageTypeInput \<and> w = input_payload p \<and> w \<noteq> []) \<and>
     (\<forall>z. ConsoleResize z \<in> set calls \<longrightarrow>
       cm_type p = MessageTypeResize \<and> pty_rows z = cm_rows p \<and> pty_columns z = cm_columns p
       \<and> 0 < pty_rows z \<and> 0 < pty_columns z)"
  using assms
  by (auto simp: dispatch_def client_message_ok_def Let_def
      split: message_type.splits if_splits)

text \<open>
  Property C19: only an accepted input message writes to the shell, and it writes exactly its
  payload, never nothing; only an accepted resize message resizes it, to a positive size. A read
  error, a refused message, a second authorize and a close never touch the console.
\<close>

theorem read_round_console_safety:
  assumes "read_round io m = (calls, r)"
  shows "(\<forall>w. ConsoleWrite w \<in> set calls \<longrightarrow>
      (\<exists>msg p. m = Ok msg \<and> parse_client_message msg = Ok p \<and> cm_type p = MessageTypeInput
         \<and> w = input_payload p \<and> w \<noteq> [])) \<and>
    (\<forall>z. ConsoleResize z \<in> set calls \<longrightarrow>
      (\<exists>msg p. m = Ok msg \<and> parse_client_message msg = Ok p \<and> cm_type p = MessageTypeResize
         \<and> z = \<lparr>pty_rows = cm_rows p, pty_columns = cm_columns p\<rparr>
         \<and> 0 < pty_rows z \<and> 0 < pty_columns z))"
proof (cases "\<exists>msg p. m = Ok msg \<and> parse_client_message msg = Ok p")
  case True
  then obtain msg p where p: "m = Ok msg" "parse_client_message msg = Ok p" by blast
  obtain calls' where c: "dispatch io p = (calls', r)" "calls = Touch # calls'"
    using assms p by (auto simp: read_round_def split: prod.splits)
  show ?thesis
    using dispatch_calls [OF c(1) parsed_message_ok [OF p(2)]] p c(2) by auto
next
  case False
  then have "set calls \<subseteq> {Touch}"
    using assms by (auto simp: read_round_def split: sum.splits)
  then show ?thesis by auto
qed

definition quiet_console :: console_io where
  "quiet_console = \<lparr>ci_write = (\<lambda>d. None), ci_resize = (\<lambda>z. None)\<rparr>"

definition input_message :: "string \<Rightarrow> message" where
  "input_message d = text_message [(''type'', VStr ''input''), (''data'', VStr d)]"

lemma parse_input_message:
  "utf8_valid d \<Longrightarrow> parse_client_message (input_message d) =
     Ok ((client_message_of MessageTypeInput)\<lparr>cm_input := d\<rparr>)"
  by (simp add: input_message_def parse_input sanitize_valid)

lemma read_round_input:
  assumes "utf8_valid d"
  shows "read_round io (Ok (input_message d)) =
    (if d = [] then ([Touch], None)
     else ([Touch, ConsoleWrite d],
           (case ci_write io d of
              Some e \<Rightarrow> Some (ssh_error_result ''ssh_write_failed'' ''failed to write input to ssh session'')
            | None \<Rightarrow> None)))"
  by (simp add: read_round_def parse_input_message [OF assms] dispatch_def input_payload_def
      client_message_of_def)

theorem read_round_console_safety_witness:
  "\<exists>msg p. parse_client_message msg = Ok p \<and> ''ls'' = input_payload p"
proof -
  have "utf8_valid ''ls''" by code_simp
  from read_round_input [OF this, of quiet_console]
  have "read_round quiet_console (Ok (input_message ''ls'')) = ([Touch, ConsoleWrite ''ls''], None)"
    by (simp add: quiet_console_def)
  from read_round_console_safety [OF this] show ?thesis by auto
qed

text \<open>The bytes the shell received.\<close>

fun written :: "session_call list \<Rightarrow> string" where
  "written [] = []"
| "written (ConsoleWrite d # cs) = d @ written cs"
| "written (_ # cs) = written cs"

lemma written_append: "written (a @ b) = written a @ written b"
  by (induction a rule: written.induct) simp_all

text \<open>
  Property C20: what a browser types arrives: while the shell accepts its input, any sequence of
  input messages is written to it in order, byte for byte, and the loop goes on with whatever
  comes next.
\<close>

theorem typed_input_arrives:
  assumes "\<forall>d \<in> set ds. utf8_valid d" and "\<forall>d. ci_write io d = None"
  shows "\<exists>calls. written calls = concat ds \<and>
    read_loop io (map (\<lambda>d. Ok (input_message d)) ds @ ms) =
      (calls @ fst (read_loop io ms), snd (read_loop io ms))"
  using assms
proof (induction ds)
  case Nil
  show ?case by (rule exI [of _ "[]"]) simp
next
  case (Cons d ds)
  then obtain calls where c: "written calls = concat ds"
    "read_loop io (map (\<lambda>d. Ok (input_message d)) ds @ ms) =
      (calls @ fst (read_loop io ms), snd (read_loop io ms))"
    by auto
  obtain now where r: "read_round io (Ok (input_message d)) = (now, None)" "written now = d"
    using Cons.prems by (cases "d = []") (simp_all add: read_round_input)
  then show ?case
    using c by (intro exI [of _ "now @ calls"]) (simp add: written_append)
qed

theorem typed_input_arrives_witness:
  "\<exists>calls. written calls = ''ls x'' \<and>
     read_loop quiet_console (map (\<lambda>d. Ok (input_message d)) [''ls '', [], ''x'']) = (calls, None)"
proof -
  have "\<forall>d \<in> set [''ls '', [], ''x'']. utf8_valid d" by code_simp
  from typed_input_arrives [OF this, of quiet_console "[]"] show ?thesis
    by (simp add: quiet_console_def)
qed

text \<open>What holds of every result a loop ends with.\<close>

definition reason_codes :: "(end_reason \<times> int) set" where
  "reason_codes =
     {(ProtocolViolation, 1008), (SlowClient, 1008), (InternalError, 1011), (SSHError, 1011),
      (ConsoleClosed, 1000), (BrowserDisconnect, 1000), (ClientClosed, 1000),
      (ServerShutdown, 1001), (KeepaliveTimeout, 1001)}"

definition result_wf :: "loop_result \<Rightarrow> bool" where
  "result_wf r \<longleftrightarrow>
     (lr_reason r, lr_close_code r) \<in> reason_codes \<and> lr_close_reason r \<noteq> [] \<and>
     (lr_reason r \<noteq> ClientClosed \<longrightarrow> length (lr_close_reason r) \<le> 123) \<and>
     (lr_client_error_code r \<noteq> [] \<longleftrightarrow> lr_reason r \<in> {ProtocolViolation, InternalError, SSHError}) \<and>
     (lr_client_error_code r \<noteq> [] \<longrightarrow>
        lr_client_error_code r = lr_close_reason r \<and>
        lr_client_close_reason r = end_reason_string (lr_reason r))"

lemma reason_code_table:
  "(ProtocolViolation, 1008) \<in> reason_codes" "(SlowClient, 1008) \<in> reason_codes"
  "(InternalError, 1011) \<in> reason_codes" "(SSHError, 1011) \<in> reason_codes"
  "(ConsoleClosed, 1000) \<in> reason_codes" "(BrowserDisconnect, 1000) \<in> reason_codes"
  "(ClientClosed, 1000) \<in> reason_codes" "(ServerShutdown, 1001) \<in> reason_codes"
  "(KeepaliveTimeout, 1001) \<in> reason_codes"
  by (simp_all add: reason_codes_def)

lemmas result_wf_simps = result_wf_def result_defs close_codes reason_code_table

definition short_code :: "string \<Rightarrow> bool" where
  "short_code c \<longleftrightarrow> c \<noteq> [] \<and> length c \<le> 123"

lemma error_results_wf:
  "short_code (pe_code e) \<Longrightarrow> result_wf (protocol_violation_result e)"
  "short_code code \<Longrightarrow> result_wf (internal_error_result code text)"
  "short_code code \<Longrightarrow> result_wf (ssh_error_result code text)"
  by (simp_all add: result_wf_simps short_code_def)

lemma end_results_wf:
  "result_wf output_slow_client_result" "result_wf console_closed_result"
  "result_wf browser_disconnect_result" "result_wf server_shutdown_result"
  "result_wf keepalive_timeout_result" "reason \<noteq> [] \<Longrightarrow> result_wf (client_close_result reason)"
  by (simp_all add: result_wf_simps)

lemma short_codes:
  "short_code ''websocket_read_failed''" "short_code ''ssh_write_failed''"
  "short_code ''resize_failed''" "short_code ''ssh_read_failed''"
  "short_code ''keepalive_ping_failed''" "short_code (pe_code unexpected_authorize)"
  "short_code (pe_code unsupported_message)"
  by (simp_all add: short_code_def unexpected_authorize_def unsupported_message_def)

lemma client_error_codes_short: "c \<in> set client_error_codes \<Longrightarrow> short_code c"
proof -
  have "list_all short_code client_error_codes"
    by (simp add: client_error_codes_def short_code_def)
  then show "c \<in> set client_error_codes \<Longrightarrow> short_code c" by (simp add: list_all_iff)
qed

lemmas protocol_violation_wf = error_results_wf(1) [OF client_error_codes_short]

lemma dispatch_result_wf:
  assumes "dispatch io p = (calls, Some r)"
  shows "result_wf r"
  using assms
  by (auto simp: dispatch_def Let_def short_codes error_results_wf end_results_wf
      split: message_type.splits if_splits option.splits)

lemma read_error_result_wf: "result_wf (read_error_result e)"
  by (simp add: read_error_result_def short_codes error_results_wf end_results_wf)

lemma read_round_result_wf:
  assumes "read_round io m = (calls, Some r)"
  shows "result_wf r"
proof (cases m)
  case (Inl e)
  then show ?thesis using assms read_error_result_wf by (auto simp: read_round_def)
next
  case (Inr msg)
  show ?thesis
  proof (cases "parse_client_message msg")
    case (Inl e)
    then show ?thesis
      using assms Inr refused_message [OF Inl] protocol_violation_wf by (auto simp: read_round_def)
  next
    case (Inr p)
    then show ?thesis
      using assms \<open>m = Inr msg\<close> dispatch_result_wf [of io p]
      by (auto simp: read_round_def split: prod.splits)
  qed
qed

lemma output_result_wf: "output_result q e = Some r \<Longrightarrow> result_wf r"
  by (auto simp: output_result_def short_codes error_results_wf end_results_wf
      split: if_splits option.splits console_error.splits)

lemma ping_error_result_wf: "result_wf (ping_error_result e)"
  by (simp add: ping_error_result_def short_codes error_results_wf end_results_wf)

text \<open>
  Property C15: every end the read, output and keepalive loops come to has the close code of its reason
  and a close reason, tells the browser the error exactly for protocol violations, internal errors and SSH
  errors, with the same code in the error message and in the close frame; and its close reason
  fits the 123 bytes a close frame has for it, unless the client chose it.
\<close>

theorem loop_results_wf:
  "(read_round io m = (calls, Some r) \<longrightarrow> result_wf r) \<and>
   (output_result q err = Some r \<longrightarrow> result_wf r) \<and> result_wf (ping_error_result e)"
  using read_round_result_wf output_result_wf ping_error_result_wf by blast

theorem loop_results_wf_witness: "result_wf console_closed_result"
  using loop_results_wf [of quiet_console "Err NetTimeout" "[]" console_closed_result True
      "Some ConsoleEOF" NetTimeout]
  by (simp add: output_result_def)

text \<open>
  A client's close reason has no bound: closing with a longer reason than a control
  frame can carry makes the session close with that reason, and when the connection refuses such
  a frame, the close ends in its error with no close frame accepted.
\<close>

theorem long_close_reason:
  assumes "utf8_valid reason" and "trim_space reason = reason" and "123 < length reason"
    and "\<And>code. length (format_close code reason) = 2 + length reason"
    and "\<And>p. 125 < length p \<Longrightarrow> tr_control t close_message_type p = Some (OtherError ''invalid control frame'')"
  shows "\<exists>r. read_round io (Ok (new_server_close reason)) = ([Touch], Some r)
    \<and> lr_reason r = ClientClosed \<and> lr_close_reason r = reason
    \<and> snd (conn_close g format_close t now (lr_close_code r) (lr_close_reason r))
        = Some (OtherError ''invalid control frame'')"
proof -
  have "parse_client_message (new_server_close reason) =
      Ok ((client_message_of MessageTypeClose)\<lparr>cm_reason := reason\<rparr>)"
    using assms by (simp add: parse_close sanitize_valid)
  moreover have "reason \<noteq> []" using assms(3) by auto
  ultimately have "read_round io (Ok (new_server_close reason)) =
      ([Touch], Some (client_close_result reason))"
    by (simp add: read_round_def dispatch_def client_message_of_def)
  moreover have "125 < length (format_close close_normal_closure reason)"
    using assms(3,4) by simp
  ultimately show ?thesis
    using assms(5) by (auto simp: client_close_result_def conn_close_def Let_def)
qed

definition picky_transport :: transport where
  "picky_transport = idle_transport
     \<lparr>tr_control := (\<lambda>k p. if 125 < length p then Some (OtherError ''invalid control frame'') else None)\<rparr>"

theorem long_close_reason_witness:
  "\<exists>r. read_round quiet_console (Ok (new_server_close (replicate 124 CHR ''x''))) = ([Touch], Some r)
     \<and> lr_close_reason r = replicate 124 CHR ''x''"
proof -
  have "utf8_valid (replicate 124 CHR ''x'')" and
    "trim_space (replicate 124 CHR ''x'') = replicate 124 CHR ''x''"
    by code_simp+
  moreover have "length (CHR ''a'' # CHR ''b'' # replicate 124 CHR ''x'') =
      2 + length (replicate 124 CHR ''x'')" by simp
  moreover have "125 < length p \<Longrightarrow>
      tr_control picky_transport close_message_type p = Some (OtherError ''invalid control frame'')" for p
    by (simp add: picky_transport_def)
  ultimately show ?thesis
    using long_close_reason [of "replicate 124 CHR ''x''" "\<lambda>c s. CHR ''a'' # CHR ''b'' # s" picky_transport
        quiet_console] by (simp del: replicate.simps) blast
qed

text \<open>One round of a session: its reads run under the background context.\<close>

definition session_round :: "console_io \<Rightarrow> transport \<Rightarrow> loop_result option" where
  "session_round io t = snd (read_round io (snd (conn_read_message t background)))"

lemma session_round_cases:
  "session_round io t =
     (case read_outcome background (tr_read t) of
        Inl e \<Rightarrow> Some (read_error_result e)
      | Inr m \<Rightarrow> snd (read_round io (Ok m)))"
  by (simp add: session_round_def conn_read_message_def background_def read_round_def
      split: sum.split)

lemma accepted_reasons:
  "snd (read_round io (Ok m)) = Some r \<Longrightarrow> lr_reason r \<in> {ProtocolViolation, SSHError, ClientClosed}"
  by (auto simp: read_round_def dispatch_def Let_def result_defs
      split: sum.splits prod.splits if_splits message_type.splits option.splits)

lemma background_outcome:
  "read_outcome background (Err e) = Err (if e = ErrReadLimit then ProtocolErr message_too_large else e)"
  by (simp add: read_outcome_def background_def)

text \<open>
  Property C29: how a session's reads, which run without a deadline of their own, end it. A
  cancelled context is a shutdown of the server; a network timeout and an expired deadline are a
  keepalive timeout; a peer that closed normally, went away, gave no status or was cut off, and a
  connection on which a close was already sent, are a disconnect; every other error, other close
  codes, a message over the limit and protocol errors among them, and every frame that is neither
  text nor binary, is an internal error with the code \<^verbatim>\<open>websocket_read_failed\<close>. A text or binary
  frame, whatever it holds, ends the session for none of these reasons: only for a protocol
  violation, an SSH error or because the client closed.
\<close>

theorem session_read_errors:
  "case tr_read t of
     Inl e \<Rightarrow>
       session_round io t = Some
         (if e = CtxCanceled then server_shutdown_result
          else if e \<in> {NetTimeout, CtxDeadlineExceeded} then keepalive_timeout_result
          else if e = ErrCloseSent \<or> e \<in> PeerClose ` {1000, 1001, 1005, 1006} then browser_disconnect_result
          else internal_error_result ''websocket_read_failed'' ''websocket read failed'')
   | Inr (ty, d) \<Rightarrow>
       (ty \<notin> {1, 2} \<longrightarrow> session_round io t =
          Some (internal_error_result ''websocket_read_failed'' ''websocket read failed'')) \<and>
       (ty \<in> {1, 2} \<longrightarrow> (\<forall>r. session_round io t = Some r \<longrightarrow>
          lr_reason r \<in> {ProtocolViolation, SSHError, ClientClosed}))"
proof (cases "tr_read t")
  case (Inl e)
  then show ?thesis
    by (cases e) (auto simp: session_round_cases background_outcome read_error_result_def)
next
  case (Inr f)
  then show ?thesis
    using accepted_reasons
    by (cases f) (auto simp: session_round_cases read_outcome_def read_error_result_def
        text_message_type_def binary_message_type_def)
qed

theorem session_read_errors_witness:
  "session_round quiet_console (idle_transport\<lparr>tr_read := Ok (9, ''ping'')\<rparr>) =
     Some (internal_error_result ''websocket_read_failed'' ''websocket read failed'')"
  using session_read_errors [of quiet_console "idle_transport\<lparr>tr_read := Ok (9, ''ping'')\<rparr>"] by simp

definition audit_keys :: "string set" where
  "audit_keys = {''pin'', ''supportPin'', ''mitarbeiteraccount'', ''mitarbeiterAccount'', ''employeeAccount''}"

definition audit_targets :: "string set" where
  "audit_targets = {''pin'', ''mitarbeiteraccount''}"

lemma candidate_names:
  "(k, ks) \<in> set audit_candidates \<Longrightarrow> k \<in> audit_targets \<and> set ks \<subseteq> audit_keys"
  by (auto simp: audit_candidates_def audit_keys_def audit_targets_def)

lemma collect_fields_Some:
  "collect_fields payload cs k = Some t \<Longrightarrow> \<exists>ks. (k, ks) \<in> set cs \<and> first_text payload ks = Some t"
  by (induction payload cs rule: collect_fields.induct) (auto split: option.splits if_splits)

lemma first_text_Some:
  "first_text payload ks = Some t \<Longrightarrow> t \<noteq> [] \<and> (\<exists>k \<in> set ks. payload k = Some (JStr t))"
  by (induction payload ks rule: first_text.induct)
    (auto split: option.splits json.splits if_splits)

lemma grant_field_source:
  assumes "extract_grant_audit_fields raw k = Some t"
  shows "k \<in> audit_targets \<and> t \<noteq> [] \<and>
    (\<exists>payload key. unmarshal_map raw = Some payload \<and> payload key = Some (JStr t) \<and> key \<in> audit_keys)"
proof -
  obtain payload where p: "unmarshal_map raw = Some payload"
    "collect_fields payload audit_candidates k = Some t"
    using assms by (auto simp: extract_grant_audit_fields_def split: if_splits option.splits)
  obtain ks where ks: "(k, ks) \<in> set audit_candidates" "first_text payload ks = Some t"
    using collect_fields_Some [OF p(2)] by blast
  from first_text_Some [OF ks(2)] candidate_names [OF ks(1)] p(1) show ?thesis by blast
qed

text \<open>
  Property C37: a grant adds to an audit event at most a PIN and an employee account, each a
  text of the grant that is not empty; an answer that is no JSON object adds nothing.
\<close>

theorem grant_audit_fields:
  "(\<forall>k t. extract_grant_audit_fields raw k = Some t \<longrightarrow>
      k \<in> audit_targets \<and> t \<noteq> [] \<and>
      (\<exists>payload key. unmarshal_map raw = Some payload \<and> payload key = Some (JStr t) \<and> key \<in> audit_keys)) \<and>
   (unmarshal_map raw = None \<longrightarrow> extract_grant_audit_fields raw = Map.empty)"
proof -
  have "extract_grant_audit_fields raw = Map.empty" if "unmarshal_map raw = None"
    using that by (simp add: extract_grant_audit_fields_def)
  with grant_field_source [of raw] show ?thesis by blast
qed

definition sample_raw :: string where
  "sample_raw = marshal_struct [(''ipAddress'', VStr ''10.0.0.8''), (''supportPin'', VStr ''1234'')]"

lemma sample_fields: "extract_grant_audit_fields sample_raw ''pin'' = Some ''1234''"
  by code_simp

theorem grant_audit_fields_witness:
  "\<exists>payload key. unmarshal_map sample_raw = Some payload \<and> payload key = Some (JStr ''1234'')"
  using grant_audit_fields [of sample_raw] sample_fields by blast

text \<open>
  In an audit event of a session the event's own fields win over those of the grant,
  and the address and account are always the session's: nothing a backend answers can forge them.
\<close>

theorem audit_payload_identity:
  "(\<forall>k v. extra k = Some v \<longrightarrow> audit_payload grant account extra k = Some v) \<and>
   audit_payload grant account Map.empty ''ipAddress'' = Some (vr_ip_address grant) \<and>
   audit_payload grant account Map.empty ''sshAccount'' = Some account"
proof -
  have "extract_grant_audit_fields raw ''ipAddress'' = None"
    "extract_grant_audit_fields raw ''sshAccount'' = None" for raw
    using grant_field_source [of raw "''ipAddress''"] grant_field_source [of raw "''sshAccount''"]
    by (force simp: audit_targets_def)+
  then show ?thesis by (simp add: audit_payload_def map_add_def)
qed

theorem audit_payload_identity_witness:
  "audit_payload \<lparr>vr_ip_address = ''10.0.0.8'', vr_raw_response = sample_raw\<rparr> ''pi'' [''pin'' \<mapsto> ''x''] ''pin''
     = Some ''x''"
  using audit_payload_identity [of "[''pin'' \<mapsto> ''x'']"
      "\<lparr>vr_ip_address = ''10.0.0.8'', vr_raw_response = sample_raw\<rparr>" "''pi''"] by simp

lemma hex_digit_inj: "a < 16 \<Longrightarrow> b < 16 \<Longrightarrow> hex_digit a = hex_digit b \<Longrightarrow> a = b"
  by (metis hex_value_digit option.inject)

lemma hex_pair_inj:
  assumes "hex_digit (byte c div 16) = hex_digit (byte d div 16)"
    and "hex_digit (byte c mod 16) = hex_digit (byte d mod 16)"
  shows "c = d"
proof -
  have "byte c div 16 < 16" "byte d div 16 < 16"
    using byte_less [of c] byte_less [of d] by (simp_all only: less_mult_imp_div_less [of _ 16 16, simplified])
  then have "byte c div 16 = byte d div 16" "byte c mod 16 = byte d mod 16"
    using assms hex_digit_inj by auto
  then have "byte c = byte d" by (metis div_mult_mod_eq)
  then show ?thesis by (metis chr_byte)
qed

lemma hex_encode_Cons:
  "hex_encode (c # s) = hex_digit (byte c div 16) # hex_digit (byte c mod 16) # hex_encode s"
  by (simp add: hex_encode_def)

text \<open>
  A session identifier has two characters per random byte, and different random
  bytes give different identifiers: a clash of two sessions is a clash of their random bytes.
\<close>

theorem session_ids_injective:
  "length (new_session_id r) = 2 * length r \<and> (new_session_id r = new_session_id r' \<longleftrightarrow> r = r')"
proof -
  have "length (hex_encode s) = 2 * length s" for s
    by (induction s) (simp_all add: hex_encode_def)
  moreover have "hex_encode r = hex_encode r' \<longleftrightarrow> r = r'" for r r'
  proof (induction r arbitrary: r')
    case Nil
    then show ?case by (cases r') (simp_all add: hex_encode_def)
  next
    case (Cons c r)
    then show ?case
      by (cases r') (auto simp: hex_encode_Cons hex_encode_def [of "[]"] dest: hex_pair_inj)
  qed
  ultimately show ?thesis by (simp add: new_session_id_def)
qed

text \<open>
  A registry always runs with positive settings, the given ones where they are
  positive, so its capacity and its queues are never unbounded or empty.
\<close>

theorem registry_settings_positive:
  "0 < rc_keepalive_interval (new_registry_config c) \<and> 0 < rc_keepalive_timeout (new_registry_config c) \<and>
   0 < rc_max_concurrent (new_registry_config c) \<and> 0 < rc_outbound_queue_depth (new_registry_config c) \<and>
   (at_capacity (new_registry_config c) n \<longleftrightarrow> rc_max_concurrent (new_registry_config c) \<le> int n)"
  by (simp add: new_registry_config_def override_def default_keepalive_interval_def
      default_keepalive_timeout_def default_max_concurrent_def default_outbound_queue_size_def
      second_def at_capacity_def split: option.split)

end
