(* ===== verification/Session_System.thy ===== *)
theory Session_System
  imports Session_Model
begin

text \<open>
  The session registry under concurrency, \<^verbatim>\<open>internal/session/manager.go\<close>: the shared state, a
  program counter for every goroutine, and one atomic step of each. A step does local work and
  at most one access to shared state; calls of the browser connection, of the console and of the
  SSH bridge return what the step's input says, and a step that would block has no successor.
  Threads are named after the call that made them: \<open>Starter n\<close> runs the n-th \<^verbatim>\<open>Start\<close> and so
  \<open>n\<close> also names the session it makes; \<open>Runner n\<close>, \<open>Reader n\<close>, \<open>Output n\<close>,
  \<open>Keeper n\<close> and \<open>Writer n\<close> are the goroutines of that session, \<open>Closer k\<close> is a call of
  \<^verbatim>\<open>CloseAll\<close>. \<^verbatim>\<open>sync.Once\<close> is a state: idle, running in its owner at a stage of the closing
  function, or done. Each session keeps the trace of what it did to the outside.
  The last section lists the steps of each goroutine by program counter, for case analysis.
\<close>

section \<open>State\<close>

datatype tid =
    Starter nat
  | Runner nat
  | Reader nat
  | Output nat
  | Keeper nat
  | Writer nat
  | Closer nat

record snapshot =
  sn_id :: string
  sn_state :: browser_state
  sn_grant :: validation_result
  sn_started_at :: time
  sn_last_activity :: time
  sn_ended_at :: "time option"
  sn_end_reason :: "end_reason option"
  sn_output_backlog :: nat

text \<open>The arguments of \<open>close\<close> and the statements of the function under the once, in order.\<close>

datatype close_args = CloseArgs end_reason int string

datatype close_stage =
    C_State
  | C_Chan
  | C_Browser
  | C_Console
  | C_Dereg
  | C_Closed
  | C_Audit
  | C_Cleanup

datatype once_state =
    OnceIdle
  | OnceRunning tid close_stage close_args
  | OnceDone close_args

datatype session_effect =
    Registered
  | StartAnnounced log_line "audit_event list"
  | Enqueued message
  | Dequeued message
  | BrowserWrite tid message
  | BrowserPing
  | ConsoleCall session_call
  | BrowserClose int string
  | ConsoleClose tid
  | Deregistered
  | EndAnnounced log_line "audit_event list"
  | CleanupRun snapshot

text \<open>An end time and an end reason that are not set yet are \<open>None\<close>.\<close>

record session =
  ss_info :: session_info
  ss_cleanup :: bool
  ss_outbound :: "message list"
  ss_closed :: bool
  ss_once :: once_state
  ss_state :: browser_state
  ss_started_at :: time
  ss_last_active :: time
  ss_ended_at :: "time option"
  ss_end_reason :: "end_reason option"
  ss_results :: "loop_result list"
  ss_write_done :: bool
  ss_trace :: "session_effect list"

text \<open>A request to start; whether there is a browser, a bridge and a cleanup hook is kept.\<close>

record start_request =
  st_grant :: validation_result
  st_browser :: bool
  st_bridge :: bool
  st_account :: string
  st_initial :: "message list"
  st_cleanup :: bool

datatype enqueue_error = EnqueueClosed | EnqueueExhausted

fun enqueue_error_text :: "enqueue_error \<Rightarrow> string" where
  "enqueue_error_text EnqueueClosed = ''session closed''"
| "enqueue_error_text EnqueueExhausted = ''outbound queue exhausted''"

datatype start_error =
    NoBrowser
  | NoBridge
  | NoTargetIp
  | SessionLimitReached
  | OpenBridgeFailed string
  | KeepaliveFailed conn_error
  | InitialMessageFailed enqueue_error

text \<open>
  Program counters. \<open>Closing n args k\<close> is inside \<open>close\<close> of session \<open>n\<close>, \<open>EnqCheck\<close> and
  \<open>EnqSend\<close> inside \<open>Enqueue\<close>; the last arguments are where the call returns to: for
  \<open>Enqueue\<close> after success, after finding the session closed, and after closing it for a full
  queue.
\<close>

datatype pc =
    Stopped
  | S_Enter start_request
  | S_Open start_request
  | S_Configure start_request
  | S_ConfigureFailed conn_error
  | S_Insert start_request
  | S_Reject start_request
  | S_Announce start_request
  | S_Initial "message list"
  | S_AbortClose enqueue_error
  | S_AbortDelete enqueue_error
  | S_Go
  | S_Returned
  | R_Spawn
  | R_Wait
  | R_Flush loop_result "message list"
  | R_Join
  | L_Read
  | L_Touch message
  | L_Dispatch client_message
  | O_Read
  | O_Touch string "console_error option"
  | K_Start
  | K_Wait
  | K_Ping
  | W_Select
  | W_Write message
  | W_Done
  | Send loop_result
  | EnqCheck message pc pc pc
  | EnqSend message pc pc
  | A_Collect end_reason
  | A_Next end_reason "nat list" "nat list"
  | A_Returned "nat list"
  | Closing nat close_args pc

text \<open>What the outside answers in a step; \<open>InChoice\<close> picks a ready case of a select.\<close>

datatype select_case = CtxDone | SessionClosed | CaseReady

datatype input =
    InNone
  | InOpen "string option" string
  | InConn "conn_error option"
  | InRead "(conn_error, message) result"
  | InConsole console_io
  | InConsoleRead string "console_error option"
  | InChoice select_case
  | InOrder "nat list"

record world =
  w_cfg :: registry_config
  w_registry :: "(string \<times> nat) list"
  w_heap :: "nat \<Rightarrow> session option"
  w_threads :: "tid \<Rightarrow> pc"
  w_ctx_done :: "nat \<Rightarrow> bool"
  w_now :: time
  w_returns :: "nat \<Rightarrow> (start_error, string) result option"
  w_events :: "audit_event list"

section \<open>Updates\<close>

definition goto :: "tid \<Rightarrow> pc \<Rightarrow> world \<Rightarrow> world" where
  "goto t p w = w\<lparr>w_threads := (w_threads w)(t := p)\<rparr>"

definition modify :: "nat \<Rightarrow> (session \<Rightarrow> session) \<Rightarrow> world \<Rightarrow> world" where
  "modify n f w = w\<lparr>w_heap := (w_heap w)(n := map_option f (w_heap w n))\<rparr>"

definition emit :: "session_effect \<Rightarrow> session \<Rightarrow> session" where
  "emit e s = s\<lparr>ss_trace := ss_trace s @ [e]\<rparr>"

definition returns :: "nat \<Rightarrow> (start_error, string) result \<Rightarrow> world \<Rightarrow> world" where
  "returns n r w = goto (Starter n) S_Returned (w\<lparr>w_returns := (w_returns w)(n \<mapsto> r)\<rparr>)"

text \<open>The registry's map, with the last value of a key in front.\<close>

definition reg_put :: "string \<Rightarrow> nat \<Rightarrow> (string \<times> nat) list \<Rightarrow> (string \<times> nat) list" where
  "reg_put k n r = (k, n) # filter (\<lambda>e. fst e \<noteq> k) r"

definition reg_delete :: "string \<Rightarrow> (string \<times> nat) list \<Rightarrow> (string \<times> nat) list" where
  "reg_delete k r = filter (\<lambda>e. fst e \<noteq> k) r"

definition registry_count :: "world \<Rightarrow> nat" where
  "registry_count w = length (w_registry w)"

definition registry_full :: "world \<Rightarrow> bool" where
  "registry_full w = at_capacity (w_cfg w) (registry_count w)"

definition touch :: "time \<Rightarrow> session \<Rightarrow> session" where
  "touch now s = s\<lparr>ss_last_active := now\<rparr>"

definition session_snapshot :: "session \<Rightarrow> snapshot" where
  "session_snapshot s =
     \<lparr>sn_id = si_id (ss_info s), sn_state = ss_state s, sn_grant = si_grant (ss_info s),
      sn_started_at = ss_started_at s, sn_last_activity = ss_last_active s,
      sn_ended_at = ss_ended_at s, sn_end_reason = ss_end_reason s,
      sn_output_backlog = length (ss_outbound s)\<rparr>"

definition new_session :: "start_request \<Rightarrow> string \<Rightarrow> time \<Rightarrow> session" where
  "new_session q random now =
     \<lparr>ss_info = \<lparr>si_id = new_session_id random, si_grant = st_grant q, si_account = st_account q\<rparr>,
      ss_cleanup = st_cleanup q, ss_outbound = [], ss_closed = False, ss_once = OnceIdle,
      ss_state = BrowserActive, ss_started_at = now, ss_last_active = now, ss_ended_at = None,
      ss_end_reason = None, ss_results = [], ss_write_done = False, ss_trace = []\<rparr>"

section \<open>Closing\<close>

fun next_stage :: "tid \<Rightarrow> close_stage \<Rightarrow> close_args \<Rightarrow> once_state" where
  "next_stage t C_State a = OnceRunning t C_Chan a"
| "next_stage t C_Chan a = OnceRunning t C_Browser a"
| "next_stage t C_Browser a = OnceRunning t C_Console a"
| "next_stage t C_Console a = OnceRunning t C_Dereg a"
| "next_stage t C_Dereg a = OnceRunning t C_Closed a"
| "next_stage t C_Closed a = OnceRunning t C_Audit a"
| "next_stage t C_Audit a = OnceRunning t C_Cleanup a"
| "next_stage t C_Cleanup a = OnceDone a"

definition session_duration :: "session \<Rightarrow> int" where
  "session_duration s =
     (case ss_ended_at s of None \<Rightarrow> 0 | Some e \<Rightarrow> e - ss_started_at s)"

definition end_announced :: "registry_config \<Rightarrow> close_args \<Rightarrow> session \<Rightarrow> session_effect" where
  "end_announced c a s =
     (case a of CloseArgs reason code text \<Rightarrow>
        EndAnnounced
          (log_end (ss_info s) (case ss_end_reason s of Some r \<Rightarrow> r | None \<Rightarrow> reason) code text
             (session_duration s) (length (ss_outbound s)))
          (session_audit_event (rc_audit_sink c) (ss_info s) ''session_ended''
             (ended_fields (ss_info s) reason code text (session_duration s))))"

text \<open>One statement of the closing function, on the session.\<close>

fun close_stage_session ::
  "registry_config \<Rightarrow> time \<Rightarrow> tid \<Rightarrow> close_stage \<Rightarrow> close_args \<Rightarrow> session \<Rightarrow> session" where
  "close_stage_session c now t C_State (CloseArgs reason code text) s =
     s\<lparr>ss_state := BrowserClosing, ss_last_active := now, ss_ended_at := Some now,
       ss_end_reason := Some reason\<rparr>"
| "close_stage_session c now t C_Chan a s = s\<lparr>ss_closed := True\<rparr>"
| "close_stage_session c now t C_Browser (CloseArgs reason code text) s = emit (BrowserClose code text) s"
| "close_stage_session c now t C_Console a s = emit (ConsoleClose t) s"
| "close_stage_session c now t C_Dereg a s = emit Deregistered s"
| "close_stage_session c now t C_Closed a s = s\<lparr>ss_state := BrowserClosed\<rparr>"
| "close_stage_session c now t C_Audit a s = emit (end_announced c a s) s"
| "close_stage_session c now t C_Cleanup a s =
     (if ss_cleanup s then emit (CleanupRun (session_snapshot s)) s else s)"

text \<open>
  \<open>closeOnce.Do\<close>: the first caller becomes the owner and runs the function, one statement a
  step; others wait until it is done and then return.
\<close>

definition close_step :: "tid \<Rightarrow> nat \<Rightarrow> close_args \<Rightarrow> pc \<Rightarrow> world \<Rightarrow> world option" where
  "close_step t n args k w =
     (case w_heap w n of
        None \<Rightarrow> None
      | Some s \<Rightarrow>
          (case ss_once s of
             OnceIdle \<Rightarrow> Some (modify n (\<lambda>s. s\<lparr>ss_once := OnceRunning t C_State args\<rparr>) w)
           | OnceDone a \<Rightarrow> Some (goto t k w)
           | OnceRunning owner st a \<Rightarrow>
               if owner \<noteq> t then None
               else
                 (let w' = modify n (\<lambda>s. (close_stage_session (w_cfg w) (w_now w) t st a s)
                                       \<lparr>ss_once := next_stage t st a\<rparr>) w;
                      w'' = (if st = C_Dereg
                             then w'\<lparr>w_registry := reg_delete (si_id (ss_info s)) (w_registry w')\<rparr>
                             else w')
                  in Some (if st = C_Cleanup then goto t k w'' else w''))))"

section \<open>Enqueueing and the results channel\<close>

definition slow_client_args :: close_args where
  "slow_client_args = CloseArgs SlowClient close_policy_violation ''outbound_queue_exhausted''"

definition enqueue_check :: "tid \<Rightarrow> nat \<Rightarrow> message \<Rightarrow> pc \<Rightarrow> pc \<Rightarrow> pc \<Rightarrow> world \<Rightarrow> world option" where
  "enqueue_check t n m ok closed full w =
     (case w_heap w n of
        None \<Rightarrow> None
      | Some s \<Rightarrow> Some (goto t (if ss_closed s then closed else EnqSend m ok full) w))"

definition enqueue_send :: "tid \<Rightarrow> nat \<Rightarrow> message \<Rightarrow> pc \<Rightarrow> pc \<Rightarrow> world \<Rightarrow> world option" where
  "enqueue_send t n m ok full w =
     (case w_heap w n of
        None \<Rightarrow> None
      | Some s \<Rightarrow>
          if int (length (ss_outbound s)) < rc_outbound_queue_depth (w_cfg w)
          then Some (goto t ok
                 (modify n (\<lambda>s. emit (Enqueued m) (s\<lparr>ss_outbound := ss_outbound s @ [m]\<rparr>)) w))
          else Some (goto t (Closing n slow_client_args full) w))"

text \<open>The channel of results holds three.\<close>

definition send_result :: "tid \<Rightarrow> nat \<Rightarrow> loop_result \<Rightarrow> world \<Rightarrow> world option" where
  "send_result t n r w =
     (case w_heap w n of
        None \<Rightarrow> None
      | Some s \<Rightarrow>
          if length (ss_results s) < 3
          then Some (goto t Stopped (modify n (\<lambda>s. s\<lparr>ss_results := ss_results s @ [r]\<rparr>) w))
          else None)"

section \<open>Starting\<close>

definition start_announced :: "registry_config \<Rightarrow> session \<Rightarrow> session_effect" where
  "start_announced c s =
     StartAnnounced (log_start c (ss_info s))
       (session_audit_event (rc_audit_sink c) (ss_info s) ''session_started''
          (started_fields c (ss_info s)))"

definition reject :: "nat \<Rightarrow> start_request \<Rightarrow> world \<Rightarrow> world" where
  "reject n q w =
     returns n (Err SessionLimitReached)
       (w\<lparr>w_events := w_events w @ registry_event (rc_audit_sink (w_cfg w)) ''session_rejected''
                        (rejected_fields (w_cfg w) (vr_ip_address (st_grant q)))\<rparr>)"

text \<open>The checks of the request, and the capacity before any SSH connection is made.\<close>

definition start_enter :: "nat \<Rightarrow> start_request \<Rightarrow> world \<Rightarrow> world" where
  "start_enter n q w =
     (if \<not> st_browser q then returns n (Err NoBrowser) w
      else if \<not> st_bridge q then returns n (Err NoBridge) w
      else if vr_ip_address (st_grant q) = [] then returns n (Err NoTargetIp) w
      else if registry_full w then reject n q w
      else goto (Starter n) (S_Open q) w)"

text \<open>What \<^verbatim>\<open>Start\<close> asks the bridge for.\<close>

definition bridge_request :: "start_request \<Rightarrow> session_request" where
  "bridge_request q =
     \<lparr>sr_ip_address = vr_ip_address (st_grant q), sr_account = st_account q,
      sr_term = ''xterm-256color'', sr_rows = 24, sr_columns = 80\<rparr>"

fun start_open :: "nat \<Rightarrow> start_request \<Rightarrow> string option \<Rightarrow> string \<Rightarrow> world \<Rightarrow> world" where
  "start_open n q (Some e) random w = returns n (Err (OpenBridgeFailed e)) w"
| "start_open n q None random w =
     goto (Starter n) (S_Configure q)
       (w\<lparr>w_heap := (w_heap w)(n \<mapsto> new_session q random (w_now w))\<rparr>)"

text \<open>The second check of the capacity and the insertion, under the lock.\<close>

definition start_insert :: "nat \<Rightarrow> start_request \<Rightarrow> session \<Rightarrow> world \<Rightarrow> world" where
  "start_insert n q s w =
     (if registry_full w then goto (Starter n) (S_Reject q) w
      else goto (Starter n) (S_Announce q)
             (modify n (emit Registered)
               (w\<lparr>w_registry := reg_put (si_id (ss_info s)) n (w_registry w)\<rparr>)))"

definition starter_step :: "nat \<Rightarrow> input \<Rightarrow> pc \<Rightarrow> session option \<Rightarrow> world \<Rightarrow> world option" where
  "starter_step n inp p so w =
     (case (p, so, inp) of
        (S_Enter q, _, InNone) \<Rightarrow> Some (start_enter n q w)
      | (S_Open q, _, InOpen e random) \<Rightarrow> Some (start_open n q e random w)
      | (S_Configure q, Some s, InConn e) \<Rightarrow>
          Some (goto (Starter n)
            (case e of Some e' \<Rightarrow> S_ConfigureFailed e' | None \<Rightarrow> S_Insert q) w)
      | (S_ConfigureFailed e, Some s, InNone) \<Rightarrow>
          Some (returns n (Err (KeepaliveFailed e)) (modify n (emit (ConsoleClose (Starter n))) w))
      | (S_Insert q, Some s, InNone) \<Rightarrow> Some (start_insert n q s w)
      | (S_Reject q, Some s, InNone) \<Rightarrow>
          Some (reject n q (modify n (emit (ConsoleClose (Starter n))) w))
      | (S_Announce q, Some s, InNone) \<Rightarrow>
          Some (goto (Starter n) (S_Initial (st_initial q))
            (modify n (emit (start_announced (w_cfg w) s)) w))
      | (S_Initial [], Some s, InNone) \<Rightarrow> Some (goto (Starter n) S_Go w)
      | (S_Initial (m # ms), Some s, InNone) \<Rightarrow>
          Some (goto (Starter n)
            (EnqCheck m (S_Initial ms) (S_AbortClose EnqueueClosed) (S_AbortClose EnqueueExhausted)) w)
      | (S_AbortClose e, Some s, InNone) \<Rightarrow>
          Some (goto (Starter n) (S_AbortDelete e) (modify n (emit (ConsoleClose (Starter n))) w))
      | (S_AbortDelete e, Some s, InNone) \<Rightarrow>
          Some (returns n (Err (InitialMessageFailed e))
            (w\<lparr>w_registry := reg_delete (si_id (ss_info s)) (w_registry w)\<rparr>))
      | (S_Go, Some s, InNone) \<Rightarrow>
          Some (returns n (Ok (si_id (ss_info s))) (goto (Runner n) R_Spawn w))
      | _ \<Rightarrow> None)"

section \<open>The loops\<close>

definition args_of_result :: "loop_result \<Rightarrow> close_args" where
  "args_of_result r = CloseArgs (lr_reason r) (lr_close_code r) (lr_close_reason r)"

text \<open>\<^verbatim>\<open>run\<close>; the four \<^verbatim>\<open>go\<close> statements are one step.\<close>

definition runner_step :: "nat \<Rightarrow> input \<Rightarrow> pc \<Rightarrow> session \<Rightarrow> world \<Rightarrow> world option" where
  "runner_step n inp p s w =
     (case (p, inp) of
        (R_Spawn, InNone) \<Rightarrow>
          Some (goto (Runner n) R_Wait (goto (Keeper n) K_Start (goto (Reader n) L_Read
            (goto (Output n) O_Read (goto (Writer n) W_Select w)))))
      | (R_Wait, InNone) \<Rightarrow>
          (case ss_results s of
             [] \<Rightarrow> None
           | r # rs \<Rightarrow> Some (goto (Runner n) (R_Flush r (flush_messages r))
                         (modify n (\<lambda>s. s\<lparr>ss_results := rs\<rparr>) w)))
      | (R_Flush r [], InNone) \<Rightarrow> Some (goto (Runner n) (Closing n (args_of_result r) R_Join) w)
      | (R_Flush r (m # ms), InConn e) \<Rightarrow>
          Some (goto (Runner n) (R_Flush r ms) (modify n (emit (BrowserWrite (Runner n) m)) w))
      | (R_Join, InNone) \<Rightarrow>
          (if ss_write_done s then Some (goto (Runner n) Stopped w) else None)
      | _ \<Rightarrow> None)"

definition reader_step :: "nat \<Rightarrow> input \<Rightarrow> pc \<Rightarrow> session \<Rightarrow> world \<Rightarrow> world option" where
  "reader_step n inp p s w =
     (case (p, inp) of
        (L_Read, InRead m) \<Rightarrow>
          Some (goto (Reader n)
            (case m of Inl e \<Rightarrow> Send (read_error_result e) | Inr msg \<Rightarrow> L_Touch msg) w)
      | (L_Touch msg, InNone) \<Rightarrow>
          Some (goto (Reader n)
            (case parse_client_message msg of
               Inl e \<Rightarrow> Send (protocol_violation_result e)
             | Inr c \<Rightarrow> L_Dispatch c)
            (modify n (touch (w_now w)) w))
      | (L_Dispatch c, InConsole io) \<Rightarrow>
          (let (calls, r) = dispatch io c in
           Some (goto (Reader n) (case r of Some r' \<Rightarrow> Send r' | None \<Rightarrow> L_Read)
             (modify n (\<lambda>s. s\<lparr>ss_trace := ss_trace s @ map ConsoleCall calls\<rparr>) w)))
      | _ \<Rightarrow> None)"

text \<open>Where the output loop goes after a round.\<close>

definition output_next :: "bool \<Rightarrow> console_error option \<Rightarrow> pc" where
  "output_next enqueued err =
     (case output_result enqueued err of Some r \<Rightarrow> Send r | None \<Rightarrow> O_Read)"

definition output_step :: "nat \<Rightarrow> input \<Rightarrow> pc \<Rightarrow> session \<Rightarrow> world \<Rightarrow> world option" where
  "output_step n inp p s w =
     (case (p, inp) of
        (O_Read, InConsoleRead d err) \<Rightarrow>
          Some (goto (Output n) (if d = [] then output_next True err else O_Touch d err) w)
      | (O_Touch d err, InNone) \<Rightarrow>
          Some (goto (Output n)
            (EnqCheck (new_server_output d) (output_next True err) (output_next False err)
               (output_next False err))
            (modify n (touch (w_now w)) w))
      | _ \<Rightarrow> None)"

definition keeper_step :: "nat \<Rightarrow> input \<Rightarrow> pc \<Rightarrow> session \<Rightarrow> world \<Rightarrow> world option" where
  "keeper_step n inp p s w =
     (case (p, inp) of
        (K_Start, InNone) \<Rightarrow>
          Some (goto (Keeper n) (if rc_keepalive_interval (w_cfg w) \<le> 0 then Stopped else K_Wait) w)
      | (K_Wait, InChoice CtxDone) \<Rightarrow>
          (if w_ctx_done w n then Some (goto (Keeper n) Stopped w) else None)
      | (K_Wait, InChoice SessionClosed) \<Rightarrow>
          (if ss_closed s then Some (goto (Keeper n) Stopped w) else None)
      | (K_Wait, InChoice CaseReady) \<Rightarrow> Some (goto (Keeper n) K_Ping w)
      | (K_Ping, InConn e) \<Rightarrow>
          Some (goto (Keeper n)
            (case e of Some e' \<Rightarrow> Send (ping_error_result e') | None \<Rightarrow> K_Wait)
            (modify n (emit BrowserPing) w))
      | _ \<Rightarrow> None)"

definition write_failed_args :: close_args where
  "write_failed_args = CloseArgs BrowserDisconnect close_abnormal_closure ''write_failed''"

definition writer_step :: "nat \<Rightarrow> input \<Rightarrow> pc \<Rightarrow> session \<Rightarrow> world \<Rightarrow> world option" where
  "writer_step n inp p s w =
     (case (p, inp) of
        (W_Select, InChoice CtxDone) \<Rightarrow>
          (if w_ctx_done w n then Some (goto (Writer n) W_Done w) else None)
      | (W_Select, InChoice SessionClosed) \<Rightarrow>
          (if ss_closed s then Some (goto (Writer n) W_Done w) else None)
      | (W_Select, InChoice CaseReady) \<Rightarrow>
          (case ss_outbound s of
             [] \<Rightarrow> None
           | m # ms \<Rightarrow> Some (goto (Writer n) (W_Write m)
                         (modify n (\<lambda>s. emit (Dequeued m) (s\<lparr>ss_outbound := ms\<rparr>)) w)))
      | (W_Write m, InConn e) \<Rightarrow>
          Some (goto (Writer n)
            (case e of Some e' \<Rightarrow> Closing n write_failed_args W_Done | None \<Rightarrow> W_Select)
            (modify n (emit (BrowserWrite (Writer n) m)) w))
      | (W_Done, InNone) \<Rightarrow>
          Some (goto (Writer n) Stopped (modify n (\<lambda>s. s\<lparr>ss_write_done := True\<rparr>) w))
      | _ \<Rightarrow> None)"

text \<open>
  \<^verbatim>\<open>CloseAll\<close>: the sessions of the registry in some order, then one close after the other. A
  session is registered at most once, so the order has no repetition.
\<close>

definition close_all_args :: "end_reason \<Rightarrow> close_args" where
  "close_all_args r = CloseArgs r close_going_away (end_reason_string r)"

definition closer_step :: "nat \<Rightarrow> input \<Rightarrow> pc \<Rightarrow> world \<Rightarrow> world option" where
  "closer_step k inp p w =
     (case (p, inp) of
        (A_Collect r, InOrder ns) \<Rightarrow>
          (if distinct ns \<and> set ns = set (map snd (w_registry w))
           then Some (goto (Closer k) (A_Next r [] ns) w) else None)
      | (A_Next r finished [], InNone) \<Rightarrow> Some (goto (Closer k) (A_Returned finished) w)
      | (A_Next r finished (n # ns), InNone) \<Rightarrow>
          Some (goto (Closer k) (Closing n (close_all_args r) (A_Next r (n # finished) ns)) w)
      | _ \<Rightarrow> None)"

section \<open>Steps of the system\<close>

fun tid_session :: "tid \<Rightarrow> nat" where
  "tid_session (Starter n) = n"
| "tid_session (Runner n) = n"
| "tid_session (Reader n) = n"
| "tid_session (Output n) = n"
| "tid_session (Keeper n) = n"
| "tid_session (Writer n) = n"
| "tid_session (Closer n) = n"

fun own_step :: "tid \<Rightarrow> input \<Rightarrow> pc \<Rightarrow> world \<Rightarrow> world option" where
  "own_step (Starter n) inp p w = starter_step n inp p (w_heap w n) w"
| "own_step (Runner n) inp p w = Option.bind (w_heap w n) (\<lambda>s. runner_step n inp p s w)"
| "own_step (Reader n) inp p w = Option.bind (w_heap w n) (\<lambda>s. reader_step n inp p s w)"
| "own_step (Output n) inp p w = Option.bind (w_heap w n) (\<lambda>s. output_step n inp p s w)"
| "own_step (Keeper n) inp p w = Option.bind (w_heap w n) (\<lambda>s. keeper_step n inp p s w)"
| "own_step (Writer n) inp p w = Option.bind (w_heap w n) (\<lambda>s. writer_step n inp p s w)"
| "own_step (Closer k) inp p w = closer_step k inp p w"

definition thread_step :: "tid \<Rightarrow> input \<Rightarrow> world \<Rightarrow> world option" where
  "thread_step t inp w =
     (case w_threads w t of
        Closing n args k \<Rightarrow> close_step t n args k w
      | EnqCheck m ok closed full \<Rightarrow> enqueue_check t (tid_session t) m ok closed full w
      | EnqSend m ok full \<Rightarrow> enqueue_send t (tid_session t) m ok full w
      | Send r \<Rightarrow> send_result t (tid_session t) r w
      | p \<Rightarrow> own_step t inp p w)"

text \<open>A step of a thread, a new call, the end of a context, or time passing.\<close>

datatype action =
    Thread tid input
  | CallStart nat start_request
  | CallCloseAll nat end_reason
  | CancelContext nat
  | Advance int

fun exec_action :: "action \<Rightarrow> world \<Rightarrow> world option" where
  "exec_action (Thread t inp) w = thread_step t inp w"
| "exec_action (CallStart n q) w =
     (if w_threads w (Starter n) = Stopped \<and> w_returns w n = None
      then Some (goto (Starter n) (S_Enter q) w) else None)"
| "exec_action (CallCloseAll k r) w =
     (if w_threads w (Closer k) = Stopped then Some (goto (Closer k) (A_Collect r) w) else None)"
| "exec_action (CancelContext n) w = Some (w\<lparr>w_ctx_done := (w_ctx_done w)(n := True)\<rparr>)"
| "exec_action (Advance d) w = (if 0 \<le> d then Some (w\<lparr>w_now := w_now w + d\<rparr>) else None)"

fun run_actions :: "action list \<Rightarrow> world \<Rightarrow> world option" where
  "run_actions [] w = Some w"
| "run_actions (a # as) w = Option.bind (exec_action a w) (run_actions as)"

definition initial_world :: "registry_config option \<Rightarrow> time \<Rightarrow> world" where
  "initial_world c now =
     \<lparr>w_cfg = new_registry_config c, w_registry = [], w_heap = (\<lambda>n. None),
      w_threads = (\<lambda>t. Stopped), w_ctx_done = (\<lambda>n. False), w_now = now,
      w_returns = (\<lambda>n. None), w_events = []\<rparr>"

definition system_initial :: "world \<Rightarrow> bool" where
  "system_initial w \<longleftrightarrow> (\<exists>c now. w = initial_world c now)"

inductive system_step :: "world \<Rightarrow> world \<Rightarrow> bool" where
  system_action: "exec_action a w = Some w' \<Longrightarrow> system_step w w'"

inductive_cases system_stepE: "system_step w w'"

abbreviation reachable :: "world \<Rightarrow> bool" where
  "reachable \<equiv> reachable_from system_initial system_step"

lemma run_actions_reachable:
  "reachable w \<Longrightarrow> run_actions as w = Some w' \<Longrightarrow> reachable w'"
proof (induction as arbitrary: w)
  case (Cons a as)
  then obtain v where v: "exec_action a w = Some v" "run_actions as v = Some w'"
    by (auto simp: bind_eq_Some_conv)
  have "reachable v"
    using Cons.prems(1) system_action [OF v(1)] by (rule reachable_step)
  then show ?case using v(2) by (rule Cons.IH)
qed simp

lemma initial_reachable: "reachable (initial_world c now)"
  by (rule reachable_initial) (auto simp: system_initial_def)

section \<open>Reading the world after an update\<close>

lemma goto_simps [world_simps]:
  "w_cfg (goto t p w) = w_cfg w" "w_registry (goto t p w) = w_registry w"
  "w_heap (goto t p w) = w_heap w" "w_threads (goto t p w) = (w_threads w)(t := p)"
  "w_ctx_done (goto t p w) = w_ctx_done w" "w_now (goto t p w) = w_now w"
  "w_returns (goto t p w) = w_returns w" "w_events (goto t p w) = w_events w"
  by (simp_all add: goto_def)

lemma modify_simps [world_simps]:
  "w_cfg (modify n f w) = w_cfg w" "w_registry (modify n f w) = w_registry w"
  "w_heap (modify n f w) = (w_heap w)(n := map_option f (w_heap w n))"
  "w_threads (modify n f w) = w_threads w"
  "w_ctx_done (modify n f w) = w_ctx_done w" "w_now (modify n f w) = w_now w"
  "w_returns (modify n f w) = w_returns w" "w_events (modify n f w) = w_events w"
  by (simp_all add: modify_def)

lemma returns_simps [world_simps]:
  "w_cfg (returns n r w) = w_cfg w" "w_registry (returns n r w) = w_registry w"
  "w_heap (returns n r w) = w_heap w"
  "w_threads (returns n r w) = (w_threads w)(Starter n := S_Returned)"
  "w_ctx_done (returns n r w) = w_ctx_done w" "w_now (returns n r w) = w_now w"
  "w_returns (returns n r w) = (w_returns w)(n \<mapsto> r)" "w_events (returns n r w) = w_events w"
  by (simp_all add: returns_def goto_def)

lemma reject_simps [world_simps]:
  "w_cfg (reject n q w) = w_cfg w" "w_registry (reject n q w) = w_registry w"
  "w_heap (reject n q w) = w_heap w"
  "w_threads (reject n q w) = (w_threads w)(Starter n := S_Returned)"
  "w_ctx_done (reject n q w) = w_ctx_done w" "w_now (reject n q w) = w_now w"
  "w_returns (reject n q w) = (w_returns w)(n \<mapsto> Err SessionLimitReached)"
  by (simp_all add: reject_def returns_def goto_def)

lemma emit_simps [world_simps]:
  "ss_info (emit e s) = ss_info s" "ss_cleanup (emit e s) = ss_cleanup s"
  "ss_outbound (emit e s) = ss_outbound s" "ss_closed (emit e s) = ss_closed s"
  "ss_once (emit e s) = ss_once s" "ss_state (emit e s) = ss_state s"
  "ss_started_at (emit e s) = ss_started_at s" "ss_last_active (emit e s) = ss_last_active s"
  "ss_ended_at (emit e s) = ss_ended_at s" "ss_end_reason (emit e s) = ss_end_reason s"
  "ss_results (emit e s) = ss_results s" "ss_write_done (emit e s) = ss_write_done s"
  "ss_trace (emit e s) = ss_trace s @ [e]"
  by (simp_all add: emit_def)

lemma registry_update_simps [world_simps]:
  "w_cfg (w\<lparr>w_registry := r\<rparr>) = w_cfg w" "w_heap (w\<lparr>w_registry := r\<rparr>) = w_heap w"
  "w_threads (w\<lparr>w_registry := r\<rparr>) = w_threads w" "w_now (w\<lparr>w_registry := r\<rparr>) = w_now w"
  "w_returns (w\<lparr>w_registry := r\<rparr>) = w_returns w"
  by simp_all

section \<open>Steps by program counter\<close>

lemma starter_step_cases:
  assumes "starter_step n inp p so w = Some w'"
  obtains
    (enter) q where "p = S_Enter q" "w' = start_enter n q w"
  | (openfail) q e where "p = S_Open q" "w' = returns n (Err (OpenBridgeFailed e)) w"
  | (opened) q r where "p = S_Open q" "w' = goto (Starter n) (S_Configure q)
        (w\<lparr>w_heap := (w_heap w)(n \<mapsto> new_session q r (w_now w))\<rparr>)"
  | (configured) q s where "p = S_Configure q" "so = Some s" "w' = goto (Starter n) (S_Insert q) w"
  | (unconfigured) q s e where "p = S_Configure q" "so = Some s"
      "w' = goto (Starter n) (S_ConfigureFailed e) w"
  | (failed) e s where "p = S_ConfigureFailed e" "so = Some s"
      "w' = returns n (Err (KeepaliveFailed e)) (modify n (emit (ConsoleClose (Starter n))) w)"
  | (insert) q s where "p = S_Insert q" "so = Some s" "w' = start_insert n q s w"
  | (rejected) q s where "p = S_Reject q" "so = Some s"
      "w' = reject n q (modify n (emit (ConsoleClose (Starter n))) w)"
  | (announce) q s where "p = S_Announce q" "so = Some s"
      "w' = goto (Starter n) (S_Initial (st_initial q)) (modify n (emit (start_announced (w_cfg w) s)) w)"
  | (initial_done) s where "p = S_Initial []" "so = Some s" "w' = goto (Starter n) S_Go w"
  | (initial) m ms s where "p = S_Initial (m # ms)" "so = Some s"
      "w' = goto (Starter n)
         (EnqCheck m (S_Initial ms) (S_AbortClose EnqueueClosed) (S_AbortClose EnqueueExhausted)) w"
  | (abort) e s where "p = S_AbortClose e" "so = Some s"
      "w' = goto (Starter n) (S_AbortDelete e) (modify n (emit (ConsoleClose (Starter n))) w)"
  | (abort_delete) e s where "p = S_AbortDelete e" "so = Some s"
      "w' = returns n (Err (InitialMessageFailed e))
         (w\<lparr>w_registry := reg_delete (si_id (ss_info s)) (w_registry w)\<rparr>)"
  | (go) s where "p = S_Go" "so = Some s"
      "w' = returns n (Ok (si_id (ss_info s))) (goto (Runner n) R_Spawn w)"
proof (cases p)
  case (S_Enter q)
  then show ?thesis
    using assms enter by (cases inp; cases so) (simp_all add: starter_step_def)
next
  case (S_Open q)
  then obtain e r where "inp = InOpen e r"
    using assms by (cases inp) (simp_all add: starter_step_def)
  then show ?thesis
    using assms S_Open openfail opened by (cases e) (auto simp: starter_step_def)
next
  case (S_Configure q)
  then obtain e s where "inp = InConn e" "so = Some s"
    using assms by (cases inp; cases so) (simp_all add: starter_step_def)
  then show ?thesis
    using assms S_Configure configured unconfigured by (cases e) (auto simp: starter_step_def)
next
  case (S_ConfigureFailed e)
  then show ?thesis
    using assms failed by (cases inp; cases so) (simp_all add: starter_step_def)
next
  case (S_Insert q)
  then show ?thesis
    using assms insert by (cases inp; cases so) (simp_all add: starter_step_def)
next
  case (S_Reject q)
  then show ?thesis
    using assms rejected by (cases inp; cases so) (simp_all add: starter_step_def)
next
  case (S_Announce q)
  then show ?thesis
    using assms announce by (cases inp; cases so) (simp_all add: starter_step_def)
next
  case (S_Initial ms)
  then show ?thesis
    using assms initial_done initial by (cases ms; cases inp; cases so) (simp_all add: starter_step_def)
next
  case (S_AbortClose e)
  then show ?thesis
    using assms abort by (cases inp; cases so) (simp_all add: starter_step_def)
next
  case (S_AbortDelete e)
  then show ?thesis
    using assms abort_delete by (cases inp; cases so) (simp_all add: starter_step_def)
next
  case S_Go
  then show ?thesis
    using assms go by (cases inp; cases so) (simp_all add: starter_step_def)
qed (use assms in \<open>simp_all add: starter_step_def\<close>)

lemma runner_step_cases:
  assumes "runner_step n inp p s w = Some w'"
  obtains
    (spawn) "p = R_Spawn" "w' = goto (Runner n) R_Wait (goto (Keeper n) K_Start (goto (Reader n) L_Read
            (goto (Output n) O_Read (goto (Writer n) W_Select w))))"
  | (receive) r rs where "p = R_Wait" "ss_results s = r # rs"
      "w' = goto (Runner n) (R_Flush r (flush_messages r)) (modify n (\<lambda>s. s\<lparr>ss_results := rs\<rparr>) w)"
  | (flushed) r where "p = R_Flush r []" "w' = goto (Runner n) (Closing n (args_of_result r) R_Join) w"
  | (flush) r m ms where "p = R_Flush r (m # ms)"
      "w' = goto (Runner n) (R_Flush r ms) (modify n (emit (BrowserWrite (Runner n) m)) w)"
  | (join) "p = R_Join" "ss_write_done s" "w' = goto (Runner n) Stopped w"
  using assms unfolding runner_step_def
  by (cases p; cases inp) (auto split: list.splits if_splits)

lemma reader_step_cases:
  assumes "reader_step n inp p s w = Some w'"
  obtains
    (read) p' where "p = L_Read" "w' = goto (Reader n) p' w" "(\<exists>e. p' = Send e) \<or> (\<exists>m. p' = L_Touch m)"
  | (touched) m p' where "p = L_Touch m" "w' = goto (Reader n) p' (modify n (touch (w_now w)) w)"
      "(\<exists>e. p' = Send e) \<or> (\<exists>c. p' = L_Dispatch c \<and> parse_client_message m = Ok c)"
  | (dispatched) c io calls p' where "p = L_Dispatch c" "calls = fst (dispatch io c)"
      "w' = goto (Reader n) p' (modify n (\<lambda>s. s\<lparr>ss_trace := ss_trace s @ map ConsoleCall calls\<rparr>) w)"
      "(\<exists>e. p' = Send e) \<or> p' = L_Read"
proof (cases p)
  case L_Read
  then show ?thesis
    using assms read by (cases inp) (auto simp: reader_step_def split: sum.splits)
next
  case (L_Touch m)
  then show ?thesis
    using assms touched by (cases inp) (auto simp: reader_step_def split: sum.splits)
next
  case (L_Dispatch c)
  then obtain io where "inp = InConsole io"
    using assms by (cases inp) (simp_all add: reader_step_def)
  moreover obtain calls r where "dispatch io c = (calls, r)" by (cases "dispatch io c")
  ultimately show ?thesis
    using assms L_Dispatch
    by (intro dispatched [of c calls io "case r of Some r' \<Rightarrow> Send r' | None \<Rightarrow> L_Read"])
      (simp_all add: reader_step_def split: option.split)
qed (use assms in \<open>simp_all add: reader_step_def\<close>)

lemma output_next_cases: "(\<exists>r. output_next q e = Send r) \<or> output_next q e = O_Read"
  by (simp add: output_next_def split: option.split)

lemma output_step_cases:
  assumes "output_step n inp p s w = Some w'"
  obtains
    (read) p' where "p = O_Read" "w' = goto (Output n) p' w"
      "(\<exists>e. p' = Send e) \<or> p' = O_Read \<or> (\<exists>d e. p' = O_Touch d e)"
  | (touched) d e where "p = O_Touch d e"
      "w' = goto (Output n)
            (EnqCheck (new_server_output d) (output_next True e) (output_next False e) (output_next False e))
            (modify n (touch (w_now w)) w)"
proof (cases p)
  case O_Read
  then obtain d e where i: "inp = InConsoleRead d e"
    using assms by (cases inp) (simp_all add: output_step_def)
  show ?thesis
  proof (rule read [OF O_Read])
    show "w' = goto (Output n) (if d = [] then output_next True e else O_Touch d e) w"
      using assms O_Read i by (simp add: output_step_def)
    show "(\<exists>r. (if d = [] then output_next True e else O_Touch d e) = Send r)
        \<or> (if d = [] then output_next True e else O_Touch d e) = O_Read
        \<or> (\<exists>d' e'. (if d = [] then output_next True e else O_Touch d e) = O_Touch d' e')"
      using output_next_cases [of True e] by auto
  qed
next
  case (O_Touch d e)
  then show ?thesis
    using assms touched by (cases inp) (simp_all add: output_step_def)
qed (use assms in \<open>simp_all add: output_step_def\<close>)

lemma keeper_step_cases:
  assumes "keeper_step n inp p s w = Some w'"
  obtains
    (quiet) p' where "p = K_Start \<or> p = K_Wait" "w' = goto (Keeper n) p' w"
      "p' = Stopped \<or> p' = K_Wait \<or> p' = K_Ping"
  | (ping) p' where "p = K_Ping" "w' = goto (Keeper n) p' (modify n (emit BrowserPing) w)"
      "(\<exists>r. p' = Send r) \<or> p' = K_Wait"
  using assms unfolding keeper_step_def
  by (cases p; cases inp) (auto split: if_splits option.splits select_case.splits)

lemma writer_step_cases:
  assumes "writer_step n inp p s w = Some w'"
  obtains
    (stop) "p = W_Select" "w' = goto (Writer n) W_Done w"
  | (take) m ms where "p = W_Select" "ss_outbound s = m # ms"
      "w' = goto (Writer n) (W_Write m) (modify n (\<lambda>s. emit (Dequeued m) (s\<lparr>ss_outbound := ms\<rparr>)) w)"
  | (wrote) m p' where "p = W_Write m"
      "w' = goto (Writer n) p' (modify n (emit (BrowserWrite (Writer n) m)) w)"
      "p' = W_Select \<or> p' = Closing n write_failed_args W_Done"
  | (finish) "p = W_Done" "w' = goto (Writer n) Stopped (modify n (\<lambda>s. s\<lparr>ss_write_done := True\<rparr>) w)"
  using assms unfolding writer_step_def
  by (cases p; cases inp) (auto split: if_splits option.splits list.splits select_case.splits)

lemma closer_step_cases:
  assumes "closer_step k inp p w = Some w'"
  obtains
    (collect) r ns where "p = A_Collect r" "set ns = set (map snd (w_registry w))"
      "w' = goto (Closer k) (A_Next r [] ns) w"
  | (finish) r finished where "p = A_Next r finished []" "w' = goto (Closer k) (A_Returned finished) w"
  | (close_next) r finished n ns where "p = A_Next r finished (n # ns)"
      "w' = goto (Closer k) (Closing n (close_all_args r) (A_Next r (n # finished) ns)) w"
  using assms unfolding closer_step_def
  by (cases p; cases inp) (auto split: if_splits list.splits)

lemma close_step_cases:
  assumes "close_step t n args k w = Some w'"
  obtains
    (enter) s where "w_heap w n = Some s" "ss_once s = OnceIdle"
      "w' = modify n (\<lambda>s. s\<lparr>ss_once := OnceRunning t C_State args\<rparr>) w"
  | (return) s a where "w_heap w n = Some s" "ss_once s = OnceDone a" "w' = goto t k w"
  | (stage) s st a where "w_heap w n = Some s" "ss_once s = OnceRunning t st a"
      "w_heap w' = (w_heap w)(n \<mapsto>
         (close_stage_session (w_cfg w) (w_now w) t st a s)\<lparr>ss_once := next_stage t st a\<rparr>)"
      "w_threads w' = (if st = C_Cleanup then (w_threads w)(t := k) else w_threads w)"
      "w_registry w' = (if st = C_Dereg then reg_delete (si_id (ss_info s)) (w_registry w) else w_registry w)"
      "w_cfg w' = w_cfg w" "w_now w' = w_now w" "w_returns w' = w_returns w"
  using assms unfolding close_step_def
  by (auto simp: Let_def world_simps split: option.splits once_state.splits if_splits)

lemma enqueue_check_cases:
  assumes "enqueue_check t n m ok closed full w = Some w'"
  obtains s where "w_heap w n = Some s"
    "w' = goto t (if ss_closed s then closed else EnqSend m ok full) w"
  using assms by (auto simp: enqueue_check_def split: option.splits)

lemma enqueue_send_cases:
  assumes "enqueue_send t n m ok full w = Some w'"
  obtains
    (sent) s where "w_heap w n = Some s"
      "int (length (ss_outbound s)) < rc_outbound_queue_depth (w_cfg w)"
      "w' = goto t ok (modify n (\<lambda>s. emit (Enqueued m) (s\<lparr>ss_outbound := ss_outbound s @ [m]\<rparr>)) w)"
  | (full) s where "w_heap w n = Some s"
      "\<not> int (length (ss_outbound s)) < rc_outbound_queue_depth (w_cfg w)"
      "w' = goto t (Closing n slow_client_args full) w"
  using assms by (auto simp: enqueue_send_def split: option.splits if_splits)

lemma send_result_cases:
  assumes "send_result t n r w = Some w'"
  obtains s where "w_heap w n = Some s" "length (ss_results s) < 3"
    "w' = goto t Stopped (modify n (\<lambda>s. s\<lparr>ss_results := ss_results s @ [r]\<rparr>) w)"
  using assms by (auto simp: send_result_def split: option.splits if_splits)

end
