(* ===== verification/Http_Model.thy ===== *)
theory Http_Model
  imports Session_System
begin

text \<open>
  The HTTP server, \<^verbatim>\<open>internal/httpserver/server.go\<close>, and the start of the program,
  \<^verbatim>\<open>cmd/gateway/main.go\<close>: the answer to every request, the handler of a browser socket as the
  list of what it does until it returns, the classification of a refused grant, the end of the
  server, and what the configuration makes of the parts. The answers of the connection, of the
  validator and of \<^verbatim>\<open>Start\<close>, gorilla's own upgrade and \<^verbatim>\<open>net/http\<close>'s listener are arguments. The
  properties: who is upgraded, that a shell is only asked for after a validated grant, that the
  socket is closed exactly once unless a session took it over, and how each failure is reported.
\<close>

section \<open>Requests and replies\<close>

text \<open>The header fields in order, under their canonical names.\<close>

record gateway_request =
  gq_method :: string
  gq_path :: string
  gq_header :: "(string \<times> string) list"

record http_error =
  ht_code :: string
  ht_message :: string

text \<open>
  A JSON reply, the mux's own reply for a path that is not served, gorilla's reply to a failed
  upgrade, or the socket for the handler.
\<close>

datatype http_reply =
    JsonReply int string string
  | MuxReply
  | UpgradeRefused conn_error
  | Upgraded "conn_call list" gorilla_conn

definition header_values :: "string \<Rightarrow> (string \<times> string) list \<Rightarrow> string list" where
  "header_values key h = map snd (filter (\<lambda>f. fst f = key) h)"

definition header_get :: "string \<Rightarrow> (string \<times> string) list \<Rightarrow> string" where
  "header_get key h = (case header_values key h of [] \<Rightarrow> [] | v # vs \<Rightarrow> v)"

definition header_contains_token :: "(string \<times> string) list \<Rightarrow> string \<Rightarrow> string \<Rightarrow> bool" where
  "header_contains_token h key wanted =
     list_ex (\<lambda>value. list_ex (\<lambda>part. equal_fold (trim_space part) wanted) (split_byte CHR '','' value))
       (header_values key h)"

definition has_upgrade_headers :: "(string \<times> string) list \<Rightarrow> bool" where
  "has_upgrade_headers h =
     (if \<not> header_contains_token h ''Connection'' ''upgrade'' then False
      else equal_fold (trim_space (header_get ''Upgrade'' h)) ''websocket'')"

text \<open>\<^verbatim>\<open>Encode\<close> ends the value with a newline.\<close>

definition write_json :: "int \<Rightarrow> (string \<times> field_value) list \<Rightarrow> http_reply" where
  "write_json status payload =
     JsonReply status ''application/json'' (marshal_struct payload @ [CHR 0x0A])"

definition error_payload :: "http_error \<Rightarrow> (string \<times> field_value) list" where
  "error_payload e = [(''code'', VStr (ht_code e)), (''message'', VStr (ht_message e))]"

definition method_not_allowed :: http_reply where
  "method_not_allowed =
     write_json 405 (error_payload \<lparr>ht_code = ''method_not_allowed'', ht_message = ''use GET''\<rparr>)"

definition upgrade_required :: http_reply where
  "upgrade_required =
     write_json 426 (error_payload \<lparr>ht_code = ''upgrade_required'',
       ht_message = ''websocket upgrade headers are required''\<rparr>)"

definition status_reply :: "string \<Rightarrow> http_reply" where
  "status_reply s = write_json 200 [(''status'', VStr s)]"

text \<open>The routes; \<open>refused\<close> is why gorilla does not upgrade a request.\<close>

definition handle_request ::
  "upgrader \<Rightarrow> (gateway_request \<Rightarrow> conn_error option) \<Rightarrow> gateway_request \<Rightarrow> http_reply" where
  "handle_request u refused rq =
     (if gq_path rq = ''/healthz'' then
        (if gq_method rq \<noteq> ''GET'' then method_not_allowed else status_reply ''ok'')
      else if gq_path rq = ''/readyz'' then
        (if gq_method rq \<noteq> ''GET'' then method_not_allowed else status_reply ''ready'')
      else if gq_path rq = ''/gateway/terminal'' then
        (if gq_method rq \<noteq> ''GET'' then method_not_allowed
         else if \<not> has_upgrade_headers (gq_header rq) then upgrade_required
         else case upgrade u (refused rq) of
                (calls, Inl e) \<Rightarrow> UpgradeRefused e
              | (calls, Inr g) \<Rightarrow> Upgraded calls g)
      else MuxReply)"

section \<open>Refused grants\<close>

definition classify_grant_error :: "(backend_cause \<Rightarrow> string) \<Rightarrow> grant_error \<Rightarrow> int \<times> http_error" where
  "classify_grant_error cause e =
     (case e of
        InvalidGrantError status code text \<Rightarrow> (403, \<lparr>ht_code = code, ht_message = text\<rparr>)
      | BackendError status code text err \<Rightarrow>
          (502, \<lparr>ht_code = (if trim_space code = [] then ''backend_validation_failed'' else code),
                ht_message = (if trim_space text = [] then ''backend validation failed'' else text)\<rparr>)
      | TransportError err \<Rightarrow>
          (502, \<lparr>ht_code = ''backend_unreachable'', ht_message = grant_error_text cause e\<rparr>)
      | RequestError err \<Rightarrow>
          (502, \<lparr>ht_code = ''grant_validation_failed'', ht_message = grant_error_text cause e\<rparr>))"

definition classify_grant_error_payload :: "(backend_cause \<Rightarrow> string) \<Rightarrow> grant_error \<Rightarrow> http_error" where
  "classify_grant_error_payload cause e = snd (classify_grant_error cause e)"

definition classify_grant_close :: "grant_error \<Rightarrow> int \<times> string" where
  "classify_grant_close e =
     (if is_invalid_grant_error e then (close_policy_violation, ''authorization_failed'')
      else (close_internal_server_err, end_reason_string InternalError))"

text \<open>The errors of \<^verbatim>\<open>Start\<close> as texts; the text of an error of the connection is an argument.\<close>

fun start_error_text :: "(conn_error \<Rightarrow> string) \<Rightarrow> start_error \<Rightarrow> string" where
  "start_error_text text NoBrowser = ''browser connection is required''"
| "start_error_text text NoBridge = ''ssh bridge is required''"
| "start_error_text text NoTargetIp = ''validated grant is missing target ip''"
| "start_error_text text SessionLimitReached = ''session limit reached''"
| "start_error_text text (OpenBridgeFailed e) = ''open ssh bridge: '' @ e"
| "start_error_text text (KeepaliveFailed e) = ''configure websocket keepalive: '' @ text e"
| "start_error_text text (InitialMessageFailed e) =
     ''enqueue initial websocket message: '' @ enqueue_error_text e"

section \<open>The handler of a browser socket\<close>

datatype handler_effect =
    ReadFirst conn_context
  | SocketWrite message
  | SocketClose int string
  | AskValidator string
  | AskStart start_request
  | HandlerLog log_line

text \<open>
  What the handler is answered: the time of the call, the error of the authorization context
  when the read is over, the read, the validator if there is one, whether there is a bridge,
  \<^verbatim>\<open>Start\<close>, and the texts of opaque errors. The errors of its writes are ignored by the code.
\<close>

record handler_env =
  he_now :: time
  he_ctx_err :: "conn_error option"
  he_read :: "conn_context \<Rightarrow> (conn_error, message) result"
  he_validator :: "(string \<Rightarrow> (grant_error, validation_result) result) option"
  he_bridge :: bool
  he_start :: "start_request \<Rightarrow> (start_error, string) result"
  he_conn_text :: "conn_error \<Rightarrow> string"
  he_cause_text :: "backend_cause \<Rightarrow> string"

definition write_websocket_failure :: "int \<Rightarrow> string \<Rightarrow> string \<Rightarrow> string \<Rightarrow> handler_effect list" where
  "write_websocket_failure code error_code text reason =
     (if error_code \<noteq> [] then [SocketWrite (new_server_error error_code text)] else [])
   @ (if reason \<noteq> [] then [SocketWrite (new_server_close reason)] else [])
   @ [SocketClose code reason]"

definition handler_log :: "log_level \<Rightarrow> string \<Rightarrow> (string \<times> string) list \<Rightarrow> handler_effect" where
  "handler_log level text attrs =
     HandlerLog \<lparr>ll_level = level, ll_message = text, ll_attrs = map (apsnd AText) attrs\<rparr>"

definition authorize_context :: "config \<Rightarrow> handler_env \<Rightarrow> conn_context" where
  "authorize_context cfg h =
     (let timeout = session_authorize_timeout (cfg_session cfg) in
      (with_timeout (he_now h) timeout background)
        \<lparr>ctx_err := (if timeout \<le> 0 then Some CtxDeadlineExceeded else None),
         ctx_err_after := he_ctx_err h\<rparr>)"

definition first_read_failed :: "handler_env \<Rightarrow> conn_error \<Rightarrow> handler_effect list" where
  "first_read_failed h e =
     (if is_deadline_exceeded e then
        write_websocket_failure close_policy_violation ''authorize_timeout''
          ''authorization message not received before timeout'' (end_reason_string AuthorizeTimeout)
      else if is_canceled e \<or> is_peer_closed e then
        [SocketClose close_normal_closure (end_reason_string BrowserDisconnect)]
      else
        handler_log LevelError ''websocket authorize read failed'' [(''error'', he_conn_text h e)]
        # write_websocket_failure close_internal_server_err ''websocket_read_failed''
            ''failed to read authorization message'' (end_reason_string InternalError))"

text \<open>A first message that parsed: what it is answered with, or the token it brings.\<close>

definition first_message :: "client_message \<Rightarrow> (handler_effect list, string) result" where
  "first_message c =
     (case cm_type c of
        MessageTypeClose \<Rightarrow>
          (let reason = (if cm_reason c = [] then end_reason_string ClientClosed else cm_reason c)
           in Err [SocketWrite (new_server_close reason), SocketClose close_normal_closure reason])
      | MessageTypeAuthorize \<Rightarrow> Ok (cm_token c)
      | _ \<Rightarrow> Err (write_websocket_failure close_policy_violation ''unexpected_first_message''
                ''authorize must be the first client message'' (end_reason_string ProtocolViolation)))"

definition session_start_request :: "config \<Rightarrow> handler_env \<Rightarrow> validation_result \<Rightarrow> start_request" where
  "session_start_request cfg h r =
     \<lparr>st_grant = r, st_browser = True, st_bridge = he_bridge h,
      st_account = ssh_username (cfg_ssh cfg), st_initial = [new_server_authorized],
      st_cleanup = False\<rparr>"

definition start_failed :: "handler_env \<Rightarrow> validation_result \<Rightarrow> start_error \<Rightarrow> handler_effect list" where
  "start_failed h r e =
     (if e = SessionLimitReached then
        write_websocket_failure close_try_again_later ''session_limit_reached''
          ''gateway session capacity exhausted'' (end_reason_string SessionLimit)
        @ [handler_log LevelWarn ''session start rejected''
             [(''reason'', end_reason_string SessionLimit), (''ipAddress'', vr_ip_address r)]]
      else
        write_websocket_failure close_internal_server_err ''ssh_bridge_failed''
          (start_error_text (he_conn_text h) e) ''session_start_failed''
        @ [handler_log LevelError ''session start failed''
             [(''error'', start_error_text (he_conn_text h) e)]])"

definition start_validated :: "config \<Rightarrow> handler_env \<Rightarrow> validation_result \<Rightarrow> handler_effect list" where
  "start_validated cfg h r =
     AskStart (session_start_request cfg h r)
     # (case he_start h (session_start_request cfg h r) of
          Inl e \<Rightarrow> start_failed h r e
        | Inr sid \<Rightarrow>
            [handler_log LevelInfo ''browser websocket session started''
               [(''sessionID'', sid), (''ipAddress'', vr_ip_address r)]])"

definition authorize_token :: "config \<Rightarrow> handler_env \<Rightarrow> string \<Rightarrow> handler_effect list" where
  "authorize_token cfg h token =
     (case he_validator h of
        None \<Rightarrow>
          write_websocket_failure close_internal_server_err ''grant_validator_unavailable''
            ''grant validation is not configured'' (end_reason_string InternalError)
      | Some check \<Rightarrow>
          AskValidator token
          # (case check token of
               Inl e \<Rightarrow>
                 (let (code, reason) = classify_grant_close e;
                      payload = classify_grant_error_payload (he_cause_text h) e
                  in write_websocket_failure code (ht_code payload) (ht_message payload) reason)
             | Inr r \<Rightarrow> start_validated cfg h r))"

text \<open>An error of the parser is always a protocol error, the code's other branch is dead.\<close>

definition handle_browser_socket :: "config \<Rightarrow> handler_env \<Rightarrow> handler_effect list" where
  "handle_browser_socket cfg h =
     ReadFirst (authorize_context cfg h)
     # (case he_read h (authorize_context cfg h) of
          Inl e \<Rightarrow> first_read_failed h e
        | Inr m \<Rightarrow>
            (case parse_client_message m of
               Inl e \<Rightarrow>
                 write_websocket_failure close_policy_violation (pe_code e) (pe_message e)
                   (end_reason_string ProtocolViolation)
             | Inr c \<Rightarrow>
                 (case first_message c of
                    Inl answer \<Rightarrow> answer
                  | Inr token \<Rightarrow> authorize_token cfg h token)))"

lemmas handler_defs =
  handle_browser_socket_def authorize_token_def start_validated_def start_failed_def
  first_message_def first_read_failed_def write_websocket_failure_def handler_log_def

section \<open>The server and the program\<close>

definition new_session_registry :: "config \<Rightarrow> registry_config" where
  "new_session_registry cfg = new_registry_config (Some
     \<lparr>rc_keepalive_interval = ws_keepalive_interval (cfg_websocket cfg),
      rc_keepalive_timeout = ws_keepalive_timeout (cfg_websocket cfg),
      rc_max_concurrent = session_max_concurrent (cfg_session cfg),
      rc_outbound_queue_depth = session_outbound_queue_depth (cfg_session cfg),
      rc_audit_sink = True\<rparr>)"

definition new_handler :: "config \<Rightarrow> upgrader" where
  "new_handler cfg =
     new_upgrader \<lparr>uc_max_message_bytes = ws_max_message_bytes (cfg_websocket cfg), uc_write_timeout = 0\<rparr>"

record gateway =
  gw_address :: string
  gw_read_header_timeout :: int
  gw_upgrader :: upgrader
  gw_registry :: registry_config

definition new_server :: "config \<Rightarrow> gateway" where
  "new_server cfg =
     \<lparr>gw_address = http_listen_address (cfg_http cfg),
      gw_read_header_timeout = http_read_header_timeout (cfg_http cfg),
      gw_upgrader = new_handler cfg, gw_registry = new_session_registry cfg\<rparr>"

text \<open>
  \<open>ListenAndServe\<close>: what the listener's goroutine sends, and the two cases of the select. The
  listener's error is \<open>None\<close> for nil; \<open>Inr\<close> is \<^verbatim>\<open>ErrServerClosed\<close>.
\<close>

datatype server_effect = LogShutdown | CloseAllSessions end_reason | ShutdownServer int

datatype serve_event = ListenerReturned | ContextDone

definition listener_result :: "(string, unit) result option \<Rightarrow> string option" where
  "listener_result r =
     (case r of Some (Inl e) \<Rightarrow> Some e | _ \<Rightarrow> None)"

definition listen_and_serve ::
  "serve_event \<Rightarrow> (string, unit) result option \<Rightarrow> string option \<Rightarrow> server_effect list \<times> string option" where
  "listen_and_serve first listener shutdown =
     (case first of
        ListenerReturned \<Rightarrow> ([], listener_result listener)
      | ContextDone \<Rightarrow>
          ([LogShutdown, CloseAllSessions ServerShutdown, ShutdownServer (10 * second)],
           case shutdown of Some e \<Rightarrow> Some e | None \<Rightarrow> listener_result listener))"

text \<open>\<open>newLogger\<close>: a line is written when its level is at least the configured one.\<close>

definition new_logger :: "log_level \<Rightarrow> log_line list \<Rightarrow> log_line list" where
  "new_logger level ls = filter (\<lambda>l. level \<le> ll_level l) ls"

text \<open>\<open>run\<close> up to the listening: everything the configuration is made into.\<close>

record gateway_parts =
  gp_config :: config
  gp_log_level :: log_level
  gp_validator :: grant_client
  gp_bridge :: ssh_client
  gp_server :: gateway

definition assemble ::
  "(string \<Rightarrow> (string \<times> string) option) \<Rightarrow> (string \<Rightarrow> file_result) \<Rightarrow> (string \<Rightarrow> string option)
     \<Rightarrow> (config_error, gateway_parts) result" where
  "assemble parse_url open_file lookup =
     and_then (load parse_url open_file lookup) (\<lambda>cfg.
     and_then (new_ssh_client parse_url cfg) (\<lambda>bridge.
       Ok \<lparr>gp_config = cfg, gp_log_level = logging_level (cfg_logging cfg),
           gp_validator = new_client (backend_base_url (cfg_backend cfg))
                            (backend_validation_timeout (cfg_backend cfg)),
           gp_bridge = bridge, gp_server = new_server cfg\<rparr>))"

text \<open>\<open>run\<close>; an error ends the program with status 1.\<close>

datatype run_error = StartupFailed config_error | ServeFailed string

definition run ::
  "(string \<Rightarrow> (string \<times> string) option) \<Rightarrow> (string \<Rightarrow> file_result) \<Rightarrow> (string \<Rightarrow> string option)
     \<Rightarrow> (gateway_parts \<Rightarrow> server_effect list \<times> string option) \<Rightarrow> server_effect list \<times> run_error option" where
  "run parse_url open_file lookup serve =
     (case assemble parse_url open_file lookup of
        Inl e \<Rightarrow> ([], Some (StartupFailed e))
      | Inr parts \<Rightarrow> apsnd (map_option ServeFailed) (serve parts))"

definition exit_status :: "run_error option \<Rightarrow> int" where
  "exit_status e = (case e of None \<Rightarrow> 0 | Some _ \<Rightarrow> 1)"

section \<open>Properties\<close>

text \<open>
  Property C36: a request gets a socket exactly when it is a GET of the terminal path, some part of
  a \<^verbatim>\<open>Connection\<close> field is the word upgrade in any case, the first \<^verbatim>\<open>Upgrade\<close> field is the word
  websocket, and gorilla accepts it; the read limit is set before anything is read from it.
\<close>

theorem terminal_upgrade:
  "handle_request u refused rq = Upgraded calls g \<longleftrightarrow>
     gq_path rq = ''/gateway/terminal'' \<and> gq_method rq = ''GET'' \<and>
     (\<exists>v part. (''Connection'', v) \<in> set (gq_header rq) \<and> part \<in> set (split_byte CHR '','' v)
        \<and> equal_fold (trim_space part) ''upgrade'') \<and>
     equal_fold (trim_space (header_get ''Upgrade'' (gq_header rq))) ''websocket'' \<and>
     refused rq = None \<and> calls = [SetReadLimit (up_max_message_bytes u)]
     \<and> g = \<lparr>gc_write_timeout = up_write_timeout u\<rparr>"
proof -
  have "header_contains_token h key wanted \<longleftrightarrow>
      (\<exists>v part. (key, v) \<in> set h \<and> part \<in> set (split_byte CHR '','' v) \<and> equal_fold (trim_space part) wanted)"
    for h key wanted
    by (force simp: header_contains_token_def header_values_def list_ex_iff)
  then show ?thesis
    by (auto simp: handle_request_def has_upgrade_headers_def upgrade_def write_json_def
        method_not_allowed_def upgrade_required_def status_reply_def split: option.splits)
qed

text \<open>The part of the effects that is seen by the browser.\<close>

fun on_socket :: "handler_effect \<Rightarrow> bool" where
  "on_socket (SocketWrite m) = True"
| "on_socket (SocketClose code reason) = True"
| "on_socket _ = False"

definition seen :: "config \<Rightarrow> handler_env \<Rightarrow> handler_effect list" where
  "seen cfg h = filter on_socket (handle_browser_socket cfg h)"

definition session_started :: "config \<Rightarrow> handler_env \<Rightarrow> bool" where
  "session_started cfg h \<longleftrightarrow>
     (\<exists>q. AskStart q \<in> set (handle_browser_socket cfg h) \<and> is_ok (he_start h q))"

text \<open>An answer of the handler: some messages, one close, and log lines around them.\<close>

definition answer :: "handler_effect list \<Rightarrow> bool" where
  "answer es \<longleftrightarrow> (\<forall>q. AskStart q \<notin> set es) \<and>
     (\<exists>ms code reason. filter on_socket es = map SocketWrite ms @ [SocketClose code reason]
        \<and> reason \<noteq> [] \<and> new_server_authorized \<notin> set ms)"

lemma not_authorized_message:
  "new_server_error code text \<noteq> new_server_authorized" "new_server_close reason \<noteq> new_server_authorized"
proof -
  have "marshal_string ''authorized'' = CHR 0x22 # ''authorized'' @ [CHR 0x22]"
    "marshal_string ''error'' = CHR 0x22 # ''error'' @ [CHR 0x22]"
    "marshal_string ''close'' = CHR 0x22 # ''close'' @ [CHR 0x22]"
    by code_simp+
  then show "new_server_error code text \<noteq> new_server_authorized"
    "new_server_close reason \<noteq> new_server_authorized"
    by (auto simp: server_message_defs marshal_struct_def)
qed

lemma answer_failure: "reason \<noteq> [] \<Longrightarrow> answer (write_websocket_failure code error_code text reason)"
  unfolding answer_def write_websocket_failure_def
  by (cases "error_code = []")
    (auto simp: not_authorized_message [symmetric] intro: exI [of _ "[new_server_close reason]"]
      exI [of _ "[new_server_error error_code text, new_server_close reason]"])

lemma answer_log: "answer es \<Longrightarrow> answer (handler_log l t as # es)" "answer es \<Longrightarrow> answer (es @ [handler_log l t as])"
  by (auto simp: answer_def handler_log_def)

lemma refused_grant_answer:
  "answer (let (code, reason) = classify_grant_close e; payload = classify_grant_error_payload cause e
     in write_websocket_failure code (ht_code payload) (ht_message payload) reason)"
  by (simp add: classify_grant_close_def Let_def answer_failure)

lemma first_read_failed_answer: "answer (first_read_failed h e)"
  by (auto simp: first_read_failed_def intro: answer_failure answer_log)
    (auto simp: answer_def intro: exI [of _ "[]"])

lemma first_message_answer: "first_message c = Err es \<Longrightarrow> answer es"
  by (auto simp: first_message_def Let_def split: message_type.splits if_splits intro: answer_failure)
    (auto simp: answer_def not_authorized_message [symmetric] intro: exI [of _ "[m]" for m])

lemma start_failed_answer: "answer (start_failed h r e)"
  by (auto simp: start_failed_def intro: answer_failure answer_log)

text \<open>What the handler does, up to its answer.\<close>

lemma handler_cases:
  fixes cfg h
  defines "es \<equiv> handle_browser_socket cfg h" and "rd \<equiv> ReadFirst (authorize_context cfg h)"
  obtains
    (answered) ans where "es = rd # ans" "answer ans"
  | (refused) ans token where "es = rd # AskValidator token # ans" "answer ans"
  | (asked) m c check r rest where
      "he_read h (authorize_context cfg h) = Ok m" "parse_client_message m = Ok c"
      "cm_type c = MessageTypeAuthorize" "he_validator h = Some check" "check (cm_token c) = Ok r"
      "es = rd # AskValidator (cm_token c) # AskStart (session_start_request cfg h r) # rest"
      "if is_ok (he_start h (session_start_request cfg h r))
       then \<exists>l t as. rest = [handler_log l t as] else answer rest"
proof (cases "he_read h (authorize_context cfg h)")
  case (Inl e)
  then show ?thesis
    using answered first_read_failed_answer by (simp add: es_def rd_def handle_browser_socket_def)
next
  case (Inr m)
  show ?thesis
  proof (cases "parse_client_message m")
    case (Inl e)
    then show ?thesis
      using \<open>he_read _ _ = _\<close>
      by (intro answered) (auto simp: es_def rd_def handle_browser_socket_def intro: answer_failure)
  next
    case (Inr c)
    note parsed = \<open>he_read _ _ = _\<close> Inr
    show ?thesis
    proof (cases "first_message c")
      case (Inl ans)
      then show ?thesis
        using parsed first_message_answer
        by (intro answered) (auto simp: es_def rd_def handle_browser_socket_def)
    next
      case (Inr token)
      then have c: "cm_type c = MessageTypeAuthorize" "token = cm_token c"
        by (auto simp: first_message_def Let_def split: message_type.splits)
      show ?thesis
      proof (cases "he_validator h")
        case None
        then show ?thesis
          using parsed Inr
          by (intro answered) (auto simp: es_def rd_def handle_browser_socket_def authorize_token_def
              intro: answer_failure)
      next
        case (Some check)
        show ?thesis
        proof (cases "check token")
          case (Inl e)
          then show ?thesis
            using parsed \<open>first_message c = _\<close> Some refused_grant_answer
            by (intro refused) (auto simp: es_def rd_def handle_browser_socket_def authorize_token_def)
        next
          case (Inr r)
          define q where "q = session_start_request cfg h r"
          define rest where "rest = tl (start_validated cfg h r)"
          have es: "es = rd # AskValidator (cm_token c) # AskStart q # rest"
            using parsed \<open>first_message c = _\<close> Some Inr c
            by (simp add: es_def rd_def q_def rest_def handle_browser_socket_def authorize_token_def
                start_validated_def)
          have "if is_ok (he_start h q) then \<exists>l t as. rest = [handler_log l t as] else answer rest"
            using start_failed_answer
            by (cases "he_start h q") (fastforce simp: rest_def start_validated_def q_def)+
          then show ?thesis
            using asked [of m c check r rest] parsed c Some Inr es by (simp add: q_def)
        qed
      qed
    qed
  qed
qed

text \<open>Where a request to start comes from.\<close>

lemma asked_by_handler:
  assumes "AskStart q \<in> set (handle_browser_socket cfg h)"
  shows "\<exists>m c check r rest. he_read h (authorize_context cfg h) = Ok m \<and> parse_client_message m = Ok c
    \<and> cm_type c = MessageTypeAuthorize \<and> cm_token c \<noteq> []
    \<and> he_validator h = Some check \<and> check (cm_token c) = Ok r \<and> q = session_start_request cfg h r
    \<and> handle_browser_socket cfg h =
        [ReadFirst (authorize_context cfg h), AskValidator (cm_token c), AskStart q] @ rest
    \<and> (\<forall>q'. AskStart q' \<notin> set rest)"
proof (cases rule: handler_cases [of cfg h])
  case (asked m c check r rest)
  have none: "AskStart q' \<notin> set rest" for q'
    using asked(7) by (auto simp: answer_def handler_log_def split: if_splits)
  have "cm_token c \<noteq> []"
    using parsed_message_ok [OF asked(2)] asked(3) by (auto simp: client_message_ok_def)
  moreover have "q = session_start_request cfg h r"
    using assms asked(6) none by auto
  ultimately show ?thesis
    using asked none by auto
qed (use assms in \<open>auto simp: answer_def\<close>)

text \<open>
  Property C11: a session is only ever asked for after the first message of the socket was an
  authorize message and the validator accepted exactly its token, and the request carries what
  the validator returned, the configured account and the authorized message. Until then nothing
  was written to the socket, and it is asked for once.
\<close>

theorem start_only_with_grant:
  assumes "AskStart q \<in> set (handle_browser_socket cfg h)"
  shows "\<exists>m c check rest. he_read h (authorize_context cfg h) = Ok m \<and> parse_client_message m = Ok c
    \<and> cm_type c = MessageTypeAuthorize \<and> cm_token c \<noteq> []
    \<and> he_validator h = Some check \<and> check (cm_token c) = Ok (st_grant q)
    \<and> st_account q = ssh_username (cfg_ssh cfg) \<and> st_initial q = [new_server_authorized]
    \<and> handle_browser_socket cfg h =
        [ReadFirst (authorize_context cfg h), AskValidator (cm_token c), AskStart q] @ rest
    \<and> (\<forall>q'. AskStart q' \<notin> set rest)"
  using asked_by_handler [OF assms] by (auto simp: session_start_request_def)

text \<open>
  Property C10: the socket is closed exactly once, or belongs to the session. Unless \<^verbatim>\<open>Start\<close>
  succeeded, the handler ends with one close that has a reason, after its messages and nothing
  after it; when it succeeded the handler neither writes nor closes. It never says authorized:
  only the session does.
\<close>

theorem socket_closed_once:
  "seen cfg h = [] \<and> session_started cfg h \<or>
   \<not> session_started cfg h \<and>
   (\<exists>ms code reason. seen cfg h = map SocketWrite ms @ [SocketClose code reason]
      \<and> reason \<noteq> [] \<and> new_server_authorized \<notin> set ms)"
proof (cases rule: handler_cases [of cfg h])
  case (asked m c check r rest)
  show ?thesis
  proof (cases "is_ok (he_start h (session_start_request cfg h r))")
    case True
    then show ?thesis using asked by (auto simp: session_started_def seen_def handler_log_def)
  next
    case False
    then show ?thesis using asked by (auto simp: session_started_def seen_def answer_def)
  qed
qed (auto simp: answer_def session_started_def seen_def)

text \<open>A handler over a gorilla connection, with a client of the backend.\<close>

definition gorilla_env ::
  "transport \<Rightarrow> time \<Rightarrow> conn_error option \<Rightarrow> grant_client \<Rightarrow> backend
     \<Rightarrow> (start_request \<Rightarrow> (start_error, string) result) \<Rightarrow> handler_env" where
  "gorilla_env t now err gc b start =
     \<lparr>he_now = now, he_ctx_err = err, he_read = (\<lambda>c. snd (conn_read_message t c)),
      he_validator = Some (validate_token gc b), he_bridge = True, he_start = start,
      he_conn_text = (\<lambda>e. ''connection''), he_cause_text = (\<lambda>e. ''cause'')\<rparr>"

lemma gorilla_first_read:
  assumes "0 < session_authorize_timeout (cfg_session cfg)" and "tr_set_read_deadline t = None"
    and "h = gorilla_env t now err gc b start"
  shows "he_read h (authorize_context cfg h) = read_outcome (authorize_context cfg h) (tr_read t)"
  using assms
  by (simp add: gorilla_env_def authorize_context_def Let_def with_timeout_def background_def
      conn_read_message_def)

definition internal_read_failure :: "handler_effect list" where
  "internal_read_failure =
     [SocketWrite (new_server_error ''websocket_read_failed'' ''failed to read authorization message''),
      SocketWrite (new_server_close ''internal_error''), SocketClose 1011 ''internal_error'']"

text \<open>
  Property C27: how the first read ends it. A network timeout is reported as an authorization
  timeout, a policy violation, only when the context's own timer has fired by then; when the
  socket's deadline wins that race, the same silence of the browser is an internal error. A
  first message over the limit is an internal error too, though a malformed one is a policy
  violation; a peer that went away is only closed.
\<close>

theorem first_read_ends:
  assumes "0 < session_authorize_timeout (cfg_session cfg)" and "tr_set_read_deadline t = None"
  shows "(tr_read t = Err NetTimeout \<longrightarrow>
      seen cfg (gorilla_env t now (Some CtxDeadlineExceeded) gc b start) =
        [SocketWrite (new_server_error ''authorize_timeout''
           ''authorization message not received before timeout''),
         SocketWrite (new_server_close ''authorize_timeout''), SocketClose 1008 ''authorize_timeout'']
      \<and> seen cfg (gorilla_env t now None gc b start) = internal_read_failure) \<and>
    (tr_read t = Err ErrReadLimit \<longrightarrow>
      seen cfg (gorilla_env t now err gc b start) = internal_read_failure) \<and>
    (tr_read t = Err (PeerClose 1001) \<longrightarrow>
      seen cfg (gorilla_env t now None gc b start) = [SocketClose 1000 ''browser_disconnect''])"
proof -
  have rd: "he_read (gorilla_env t now e gc b start) (authorize_context cfg (gorilla_env t now e gc b start))
      = read_outcome (authorize_context cfg (gorilla_env t now e gc b start)) (tr_read t)" for e
    using gorilla_first_read [OF assms refl] .
  have err: "ctx_err_after (authorize_context cfg (gorilla_env t now e gc b start)) = e" for e
    by (simp add: authorize_context_def gorilla_env_def Let_def)
  show ?thesis
    by (simp add: seen_def handle_browser_socket_def rd read_outcome_def err first_read_failed_def
        write_websocket_failure_def handler_log_def internal_read_failure_def close_codes)
qed

definition silent_transport :: transport where
  "silent_transport = idle_transport\<lparr>tr_read := Err NetTimeout\<rparr>"

definition demo_config :: config where
  "demo_config = default_config '':8080'' ''http://backend''"

theorem first_read_ends_witness:
  "SocketClose 1011 ''internal_error'' \<in> set (seen demo_config
     (gorilla_env silent_transport 0 None (new_client ''http://b'' 1) sample_backend (\<lambda>q. Ok ''s'')))"
proof -
  have "0 < session_authorize_timeout (cfg_session demo_config)" by code_simp
  moreover have "tr_set_read_deadline silent_transport = None" "tr_read silent_transport = Err NetTimeout"
    by (simp_all add: silent_transport_def idle_transport_def)
  ultimately show ?thesis
    using first_read_ends [of demo_config silent_transport 0 "new_client ''http://b'' 1" sample_backend
        "\<lambda>q. Ok ''s''" None] by (simp add: internal_read_failure_def)
qed

text \<open>A browser that sends one authorize message.\<close>

definition authorize_transport :: transport where
  "authorize_transport = idle_transport
     \<lparr>tr_read := Ok (text_message_type,
        marshal_struct [(''type'', VStr ''authorize''), (''token'', VStr '' t '')])\<rparr>"

definition demo_env :: "backend \<Rightarrow> handler_env" where
  "demo_env b = gorilla_env authorize_transport 0 None (new_client ''http://b'' 1) b (\<lambda>q. Ok ''s'')"

definition demo_grant :: validation_result where
  "demo_grant = \<lparr>vr_ip_address = '' 10.0.0.8'',
     vr_raw_response = marshal_struct [(''ipAddress'', VStr '' 10.0.0.8'')]\<rparr>"

lemma demo_handler:
  "AskStart (session_start_request demo_config (demo_env sample_backend) demo_grant)
     \<in> set (handle_browser_socket demo_config (demo_env sample_backend))"
proof -
  have "list_ex (\<lambda>e. case e of
        AskStart q \<Rightarrow> q = session_start_request demo_config (demo_env sample_backend) demo_grant | _ \<Rightarrow> False)
      (handle_browser_socket demo_config (demo_env sample_backend))"
    by code_simp
  then obtain e where "e \<in> set (handle_browser_socket demo_config (demo_env sample_backend))"
    and "case e of AskStart q \<Rightarrow> q = session_start_request demo_config (demo_env sample_backend) demo_grant
         | _ \<Rightarrow> False"
    unfolding list_ex_iff by blast
  then show ?thesis by (simp split: handler_effect.split_asm)
qed

theorem start_only_with_grant_witness:
  "\<exists>check token. he_validator (demo_env sample_backend) = Some check \<and> check token = Ok demo_grant \<and> token \<noteq> []"
  using start_only_with_grant [OF demo_handler] by (auto simp: session_start_request_def)

text \<open>
  Property C28: a refused grant. The socket is closed as a policy violation when the backend
  rejected the grant, as an internal error in every other case, and the browser is told why
  first, except for a rejection whose code is empty: then there is no error message.
\<close>

theorem refused_grant_reply:
  assumes "he_read h (authorize_context cfg h) = Ok m" and "parse_client_message m = Ok c"
    and "cm_type c = MessageTypeAuthorize" and "he_validator h = Some check"
    and "check (cm_token c) = Err e"
  shows "\<exists>error_code text code reason. seen cfg h =
      (if error_code = [] then [] else [SocketWrite (new_server_error error_code text)])
      @ [SocketWrite (new_server_close reason), SocketClose code reason]
    \<and> (code, reason) = (if is_invalid_grant_error e then (1008, ''authorization_failed'')
                         else (1011, ''internal_error''))
    \<and> (error_code = [] \<longleftrightarrow> (\<exists>status text. e = InvalidGrantError status [] text))"
proof -
  let ?p = "classify_grant_error_payload (he_cause_text h) e"
  let ?k = "classify_grant_close e"
  have "seen cfg h = filter on_socket
      (write_websocket_failure (fst ?k) (ht_code ?p) (ht_message ?p) (snd ?k))"
    using assms by (simp add: seen_def handle_browser_socket_def first_message_def authorize_token_def
        Let_def split: prod.split)
  moreover have "ht_code ?p = [] \<longleftrightarrow> (\<exists>status text. e = InvalidGrantError status [] text)"
    by (cases e) (auto simp: classify_grant_error_payload_def classify_grant_error_def)
  moreover have "?k = (if is_invalid_grant_error e then (1008, ''authorization_failed'')
      else (1011, ''internal_error''))"
    by (simp add: classify_grant_close_def close_codes)
  ultimately show ?thesis
    by (intro exI [of _ "ht_code ?p"] exI [of _ "ht_message ?p"] exI [of _ "fst ?k"] exI [of _ "snd ?k"])
      (auto simp: write_websocket_failure_def)
qed

text \<open>A backend that rejects with a message but no code.\<close>

definition codeless_backend :: backend where
  "codeless_backend =
     \<lparr>bk_build_error = (\<lambda>u. None),
      bk_send = (\<lambda>rq. Response 403 (marshal_struct [(''message'', VStr ''expired'')]))\<rparr>"

theorem refused_grant_reply_witness:
  "\<exists>code reason. seen demo_config (demo_env codeless_backend) =
     [SocketWrite (new_server_close reason), SocketClose code reason]"
proof -
  let ?h = "demo_env codeless_backend"
  let ?m = "\<lparr>msg_type = TextFrame,
    msg_data = marshal_struct [(''type'', VStr ''authorize''), (''token'', VStr '' t '')]\<rparr>"
  let ?c = "(client_message_of MessageTypeAuthorize)\<lparr>cm_token := ''t''\<rparr>"
  have "he_read ?h (authorize_context demo_config ?h) = Ok ?m" by code_simp
  moreover have "parse_client_message ?m = Ok ?c" by code_simp
  moreover have "he_validator ?h = Some (validate_token (new_client ''http://b'' 1) codeless_backend)"
    by (simp add: demo_env_def gorilla_env_def)
  moreover have "validate_token (new_client ''http://b'' 1) codeless_backend ''t'' =
      Err (InvalidGrantError 403 [] ''expired'')"
    by code_simp
  ultimately show ?thesis
    using refused_grant_reply [of ?h demo_config ?m ?c
        "validate_token (new_client ''http://b'' 1) codeless_backend" "InvalidGrantError 403 [] ''expired''"]
    by (auto simp: client_message_of_def)
qed

lemma load_valid: "load parse_url open_file lookup = Ok cfg \<Longrightarrow> validate parse_url cfg = Ok ()"
  using resolve_Ok by (auto simp: load_def and_then_Inr)

lemma assembled_gateway_starts:
  "is_ok (assemble parse_url open_file lookup) \<longleftrightarrow> is_ok (load parse_url open_file lookup)"
  using load_valid [of parse_url open_file lookup]
  by (cases "load parse_url open_file lookup") (simp_all add: assemble_def new_ssh_client_def)

text \<open>
  Property C35: a program that starts runs on a valid configuration, and every part gets its own
  settings: the log level, the listener's address and header timeout, the limits of the sockets
  and of the registry, which has the audit sink, the validator's URL, less its trailing slashes, and
  timeout, and the five settings of the bridge. Only the write timeout of a socket is no setting;
  it is five seconds. Once the configuration is loaded nothing can fail any more.
\<close>

theorem assembled_gateway:
  "case load parse_url open_file lookup of
     Inl e \<Rightarrow> assemble parse_url open_file lookup = Err e
   | Inr cfg \<Rightarrow> \<exists>p. assemble parse_url open_file lookup = Ok p \<and> config_valid parse_url cfg
       \<and> gp_config p = cfg \<and> gp_log_level p = logging_level (cfg_logging cfg)
       \<and> gp_server p =
           \<lparr>gw_address = http_listen_address (cfg_http cfg),
            gw_read_header_timeout = http_read_header_timeout (cfg_http cfg),
            gw_upgrader =
              \<lparr>up_max_message_bytes = ws_max_message_bytes (cfg_websocket cfg),
               up_write_timeout = 5000000000, up_read_buffer_size = 1024, up_write_buffer_size = 1024,
               up_check_origin = (\<lambda>_. True)\<rparr>,
            gw_registry =
              \<lparr>rc_keepalive_interval = ws_keepalive_interval (cfg_websocket cfg),
               rc_keepalive_timeout = ws_keepalive_timeout (cfg_websocket cfg),
               rc_max_concurrent = session_max_concurrent (cfg_session cfg),
               rc_outbound_queue_depth = session_outbound_queue_depth (cfg_session cfg),
               rc_audit_sink = True\<rparr>\<rparr>
       \<and> (\<exists>slashes. backend_base_url (cfg_backend cfg) = gc_base_url (gp_validator p) @ slashes
            \<and> set slashes \<subseteq> {CHR ''/''})
       \<and> (\<nexists>t. gc_base_url (gp_validator p) = t @ ''/'')
       \<and> gc_timeout (gp_validator p) = backend_validation_timeout (cfg_backend cfg)
       \<and> gp_bridge p =
           \<lparr>sc_username = ssh_username (cfg_ssh cfg), sc_port = ssh_port (cfg_ssh cfg),
            sc_connect_timeout = ssh_connect_timeout (cfg_ssh cfg),
            sc_private_key_path = secrets_ssh_private_key_path (cfg_secrets cfg),
            sc_insecure_ignore_host_key = ssh_insecure_ignore_host_key (cfg_ssh cfg)\<rparr>"
proof (cases "load parse_url open_file lookup")
  case (Inr cfg)
  then have v: "validate parse_url cfg = Ok ()" by (rule load_valid)
  then have "config_valid parse_url cfg" by (simp add: validate_Ok)
  then show ?thesis
    using Inr v trim_right_byte_spec [where c = "CHR ''/''" and s = "backend_base_url (cfg_backend cfg)"]
    by (simp add: assemble_def new_ssh_client_def new_server_def new_session_registry_def
        new_registry_config_def override_def new_handler_def new_upgrader_def new_client_def
        config_valid_def default_write_timeout_def second_def)
qed (simp add: assemble_def)

text \<open>
  Property C40: the program ends with status 0 exactly when its configuration loads, the listener
  ends without an error of its own, and a shutdown, when a signal started one, succeeds. Whatever
  it ends with, sessions are closed by the program exactly on a signal after a good start.
\<close>

theorem exit_status_zero:
  "(exit_status (snd (run parse_url open_file lookup (\<lambda>p. listen_and_serve first listener shutdown))) = 0
      \<longleftrightarrow> is_ok (load parse_url open_file lookup) \<and> (\<nexists>e. listener = Some (Err e))
          \<and> (first = ListenerReturned \<or> shutdown = None)) \<and>
   (CloseAllSessions r \<in> set (fst (run parse_url open_file lookup (\<lambda>p. listen_and_serve first listener shutdown)))
      \<longleftrightarrow> is_ok (load parse_url open_file lookup) \<and> first = ContextDone \<and> r = ServerShutdown)"
proof -
  have listener: "listener_result listener = None \<longleftrightarrow> (\<nexists>e. listener = Some (Err e))"
    by (auto simp: listener_result_def split: option.splits sum.splits)
  show ?thesis
    using assembled_gateway_starts [of parse_url open_file lookup] listener
    by (cases "load parse_url open_file lookup"; cases first; cases shutdown;
        cases "assemble parse_url open_file lookup")
      (auto simp: run_def listen_and_serve_def exit_status_def split: option.split)
qed

text \<open>
  Property C38: the audit trail is only as complete as the log level lets it be. The server's sink
  logs every event as a line of level info; with the level debug or info every event is written,
  with warn or error none is, though errors of sessions still are.
\<close>

theorem audit_needs_info_level:
  "(if level \<le> LevelInfo
    then \<exists>line. new_logger level (map snd (fst (logger_sink_record (Some (new_logger_sink (Some l) k)) e))) = [line]
           \<and> (''event'', AText (ae_name e)) \<in> set (ll_attrs line)
           \<and> (''fields'', AFields (ae_fields e)) \<in> set (ll_attrs line)
    else new_logger level (map snd (fst (logger_sink_record (Some (new_logger_sink (Some l) k)) e))) = [])
   \<and> new_logger level [log_end info InternalError code text d n] = [log_end info InternalError code text d n]"
proof -
  have "level \<le> LevelError" by (cases level) (simp_all add: less_eq_log_level_def)
  then have "new_logger level [log_end info InternalError code text d n] = [log_end info InternalError code text d n]"
    by (simp add: new_logger_def log_end_def)
  then show ?thesis by (auto simp: new_logger_def logger_sink_record_def new_logger_sink_def)
qed

end
