(* ===== verification/Session_Spec.thy ===== *)
theory Session_Spec
  imports Session_System
begin

text \<open>
  The abstract specification of one session and the refinement. \<open>session_delta\<close> lists the
  atomic changes a session may undergo, without threads or program counters; the type invariant
  \<open>thread_pc\<close> says that a thread only ever stands at program counters of its own code; and every
  step of the system changes every session by one \<open>session_delta\<close>, or creates it. Invariants of
  a single session are then proved on \<open>session_delta\<close> alone.
\<close>

section \<open>Program counters of each thread\<close>

fun is_send :: "pc \<Rightarrow> bool" where
  "is_send (Send r) = True"
| "is_send _ = False"

fun is_initial :: "pc \<Rightarrow> bool" where
  "is_initial (S_Initial ms) = True"
| "is_initial _ = False"

definition starter_pc :: "nat \<Rightarrow> pc \<Rightarrow> bool" where
  "starter_pc n p =
     (case p of
        Stopped \<Rightarrow> True | S_Enter q \<Rightarrow> True | S_Open q \<Rightarrow> True | S_Configure q \<Rightarrow> True
      | S_ConfigureFailed e \<Rightarrow> True | S_Insert q \<Rightarrow> True | S_Reject q \<Rightarrow> True | S_Announce q \<Rightarrow> True
      | S_Initial ms \<Rightarrow> True | S_AbortClose e \<Rightarrow> True | S_AbortDelete e \<Rightarrow> True | S_Go \<Rightarrow> True
      | S_Returned \<Rightarrow> True
      | EnqCheck m ok closed full \<Rightarrow>
          is_initial ok \<and> closed = S_AbortClose EnqueueClosed \<and> full = S_AbortClose EnqueueExhausted
      | EnqSend m ok full \<Rightarrow> is_initial ok \<and> full = S_AbortClose EnqueueExhausted
      | Closing m a k \<Rightarrow> m = n \<and> k = S_AbortClose EnqueueExhausted
      | _ \<Rightarrow> False)"

definition runner_pc :: "nat \<Rightarrow> pc \<Rightarrow> bool" where
  "runner_pc n p =
     (case p of
        Stopped \<Rightarrow> True | R_Spawn \<Rightarrow> True | R_Wait \<Rightarrow> True | R_Flush r ms \<Rightarrow> True | R_Join \<Rightarrow> True
      | Closing m a k \<Rightarrow> m = n \<and> k = R_Join
      | _ \<Rightarrow> False)"

definition reader_pc :: "pc \<Rightarrow> bool" where
  "reader_pc p =
     (case p of
        Stopped \<Rightarrow> True | L_Read \<Rightarrow> True | L_Touch m \<Rightarrow> True | L_Dispatch c \<Rightarrow> True | Send r \<Rightarrow> True
      | _ \<Rightarrow> False)"

definition output_pc :: "nat \<Rightarrow> pc \<Rightarrow> bool" where
  "output_pc n p =
     (case p of
        Stopped \<Rightarrow> True | O_Read \<Rightarrow> True | O_Touch d e \<Rightarrow> True | Send r \<Rightarrow> True
      | EnqCheck m ok closed full \<Rightarrow> (ok = O_Read \<or> is_send ok) \<and> is_send closed \<and> is_send full
      | EnqSend m ok full \<Rightarrow> (ok = O_Read \<or> is_send ok) \<and> is_send full
      | Closing m a k \<Rightarrow> m = n \<and> is_send k
      | _ \<Rightarrow> False)"

definition keeper_pc :: "pc \<Rightarrow> bool" where
  "keeper_pc p =
     (case p of
        Stopped \<Rightarrow> True | K_Start \<Rightarrow> True | K_Wait \<Rightarrow> True | K_Ping \<Rightarrow> True | Send r \<Rightarrow> True
      | _ \<Rightarrow> False)"

definition writer_pc :: "nat \<Rightarrow> pc \<Rightarrow> bool" where
  "writer_pc n p =
     (case p of
        Stopped \<Rightarrow> True | W_Select \<Rightarrow> True | W_Write m \<Rightarrow> True | W_Done \<Rightarrow> True
      | Closing m a k \<Rightarrow> m = n \<and> k = W_Done
      | _ \<Rightarrow> False)"

definition closer_pc :: "pc \<Rightarrow> bool" where
  "closer_pc p =
     (case p of
        Stopped \<Rightarrow> True | A_Collect r \<Rightarrow> True | A_Next r finished ns \<Rightarrow> True | A_Returned finished \<Rightarrow> True
      | Closing m a k \<Rightarrow> (case k of A_Next r (m' # finished) ns \<Rightarrow> m' = m | _ \<Rightarrow> False)
      | _ \<Rightarrow> False)"

fun thread_pc :: "tid \<Rightarrow> pc \<Rightarrow> bool" where
  "thread_pc (Starter n) p = starter_pc n p"
| "thread_pc (Runner n) p = runner_pc n p"
| "thread_pc (Reader n) p = reader_pc p"
| "thread_pc (Output n) p = output_pc n p"
| "thread_pc (Keeper n) p = keeper_pc p"
| "thread_pc (Writer n) p = writer_pc n p"
| "thread_pc (Closer n) p = closer_pc p"

lemmas thread_pc_defs =
  starter_pc_def runner_pc_def reader_pc_def output_pc_def keeper_pc_def writer_pc_def closer_pc_def

text \<open>The steps, by what they run.\<close>

lemma thread_step_cases:
  assumes "thread_step t inp w = Some w'"
  obtains
    (closing) n args k where "w_threads w t = Closing n args k" "close_step t n args k w = Some w'"
  | (check) m ok closed full where "w_threads w t = EnqCheck m ok closed full"
      "enqueue_check t (tid_session t) m ok closed full w = Some w'"
  | (enqueue) m ok full where "w_threads w t = EnqSend m ok full"
      "enqueue_send t (tid_session t) m ok full w = Some w'"
  | (result) r where "w_threads w t = Send r" "send_result t (tid_session t) r w = Some w'"
  | (starter) n where "t = Starter n" "starter_step n inp (w_threads w t) (w_heap w n) w = Some w'"
  | (runner) n s where "t = Runner n" "w_heap w n = Some s" "runner_step n inp (w_threads w t) s w = Some w'"
  | (reader) n s where "t = Reader n" "w_heap w n = Some s" "reader_step n inp (w_threads w t) s w = Some w'"
  | (out) n s where "t = Output n" "w_heap w n = Some s" "output_step n inp (w_threads w t) s w = Some w'"
  | (keeper) n s where "t = Keeper n" "w_heap w n = Some s" "keeper_step n inp (w_threads w t) s w = Some w'"
  | (writer) n s where "t = Writer n" "w_heap w n = Some s" "writer_step n inp (w_threads w t) s w = Some w'"
  | (closer) k where "t = Closer k" "closer_step k inp (w_threads w t) w = Some w'"
proof -
  have "own_step t inp (w_threads w t) w = Some w' \<Longrightarrow> thesis"
    using starter runner reader out keeper writer closer
    by (cases t) (auto simp: bind_eq_Some_conv)
  then show ?thesis
    using assms closing check enqueue result by (cases "w_threads w t") (simp_all add: thread_step_def)
qed

text \<open>Other threads keep their program counters, but for the spawned ones.\<close>

definition spawned_by :: "tid \<Rightarrow> tid \<Rightarrow> bool" where
  "spawned_by t t' \<longleftrightarrow>
     (case t of
        Starter n \<Rightarrow> t' = Runner n
      | Runner n \<Rightarrow> t' \<in> {Reader n, Output n, Keeper n, Writer n}
      | _ \<Rightarrow> False)"

lemma close_step_threads:
  "close_step t n args k w = Some w' \<Longrightarrow>
     w_threads w' = w_threads w \<or> w_threads w' = (w_threads w)(t := k)"
  by (erule close_step_cases) (auto simp: world_simps)

lemma enqueue_check_threads:
  "enqueue_check t n m ok closed full w = Some w' \<Longrightarrow>
     w_threads w' = (w_threads w)(t := closed) \<or> w_threads w' = (w_threads w)(t := EnqSend m ok full)"
  by (erule enqueue_check_cases) (auto simp: world_simps)

lemma enqueue_send_threads:
  "enqueue_send t n m ok full w = Some w' \<Longrightarrow>
     w_threads w' = (w_threads w)(t := ok)
     \<or> w_threads w' = (w_threads w)(t := Closing n slow_client_args full)"
  by (erule enqueue_send_cases) (auto simp: world_simps)

lemma send_result_threads:
  "send_result t n r w = Some w' \<Longrightarrow> w_threads w' = (w_threads w)(t := Stopped)"
  by (erule send_result_cases) (auto simp: world_simps)

lemma starter_step_threads:
  assumes "starter_step n inp p so w = Some w'"
  defines "p' \<equiv> w_threads w' (Starter n)"
  shows "starter_pc n p' \<and> p' \<noteq> Stopped
    \<and> (w_threads w' = (w_threads w)(Starter n := p')
       \<or> p = S_Go \<and> w_threads w' = (w_threads w)(Runner n := R_Spawn, Starter n := p'))"
  unfolding p'_def
  using assms
  by (cases rule: starter_step_cases)
    (auto simp: world_simps start_enter_def start_insert_def starter_pc_def)

lemma runner_step_threads:
  assumes "runner_step n inp p s w = Some w'"
  defines "p' \<equiv> w_threads w' (Runner n)"
  shows "runner_pc n p' \<and> (w_threads w' = (w_threads w)(Runner n := p')
     \<or> p = R_Spawn \<and> w_threads w' = (w_threads w)
         (Writer n := W_Select, Output n := O_Read, Reader n := L_Read, Keeper n := K_Start, Runner n := p'))"
  unfolding p'_def
  using assms
  by (cases rule: runner_step_cases) (auto simp: world_simps runner_pc_def)

lemma reader_step_threads:
  assumes "reader_step n inp p s w = Some w'"
  shows "reader_pc (w_threads w' (Reader n)) \<and> w_threads w' = (w_threads w)(Reader n := w_threads w' (Reader n))"
  using assms
  by (cases rule: reader_step_cases) (auto simp: world_simps reader_pc_def)

lemma output_next_pc: "output_next q e = O_Read \<or> is_send (output_next q e)"
  using output_next_cases [of q e] by auto

lemma output_next_failed: "is_send (output_next False e)"
  by (simp add: output_next_def output_result_def)

lemma output_step_threads:
  assumes "output_step n inp p s w = Some w'"
  shows "output_pc n (w_threads w' (Output n)) \<and> w_threads w' = (w_threads w)(Output n := w_threads w' (Output n))"
  using assms
proof (cases rule: output_step_cases)
  case (read p')
  then show ?thesis by (auto simp: world_simps output_pc_def)
next
  case (touched d e)
  then show ?thesis
    using output_next_pc [of True e] output_next_failed [of e]
    by (auto simp: world_simps output_pc_def)
qed

lemma keeper_step_threads:
  assumes "keeper_step n inp p s w = Some w'"
  shows "keeper_pc (w_threads w' (Keeper n)) \<and> w_threads w' = (w_threads w)(Keeper n := w_threads w' (Keeper n))"
  using assms
  by (cases rule: keeper_step_cases) (auto simp: world_simps keeper_pc_def)

lemma writer_step_threads:
  assumes "writer_step n inp p s w = Some w'"
  shows "writer_pc n (w_threads w' (Writer n)) \<and> w_threads w' = (w_threads w)(Writer n := w_threads w' (Writer n))"
  using assms
  by (cases rule: writer_step_cases) (auto simp: world_simps writer_pc_def)

lemma closer_step_threads:
  assumes "closer_step k inp p w = Some w'"
  shows "closer_pc (w_threads w' (Closer k)) \<and> w_threads w' = (w_threads w)(Closer k := w_threads w' (Closer k))"
  using assms
  by (cases rule: closer_step_cases) (auto simp: world_simps closer_pc_def)

lemmas step_threads =
  starter_step_threads runner_step_threads reader_step_threads output_step_threads
  keeper_step_threads writer_step_threads closer_step_threads

lemma is_send_iff: "is_send p \<longleftrightarrow> (\<exists>r. p = Send r)"
  by (cases p) auto

lemma is_initial_iff: "is_initial p \<longleftrightarrow> (\<exists>ms. p = S_Initial ms)"
  by (cases p) auto

text \<open>A thread inside a shared operation goes on with a program counter of its own.\<close>

lemma continuation_pc:
  "thread_pc t (Closing n a k) \<Longrightarrow> thread_pc t k"
  "thread_pc t (EnqCheck m ok closed full) \<Longrightarrow> thread_pc t closed \<and> thread_pc t (EnqSend m ok full)"
  "thread_pc t (EnqSend m ok full) \<Longrightarrow> thread_pc t ok \<and> thread_pc t (Closing (tid_session t) a full)"
  "thread_pc t (Send r) \<Longrightarrow> thread_pc t Stopped"
  by (cases t; auto simp: thread_pc_defs is_send_iff is_initial_iff split: pc.splits list.splits)+

definition typed :: "world \<Rightarrow> bool" where
  "typed w \<longleftrightarrow> (\<forall>t. thread_pc t (w_threads w t))"

lemma typed_upd: "typed w \<Longrightarrow> thread_pc t p \<Longrightarrow> w_threads w' = (w_threads w)(t := p) \<Longrightarrow> typed w'"
  by (auto simp: typed_def)

lemma typed_same: "typed w \<Longrightarrow> w_threads w' = w_threads w \<Longrightarrow> typed w'"
  by (simp add: typed_def)

lemma thread_step_typed:
  assumes "typed w" and step: "thread_step t inp w = Some w'"
  shows "typed w'"
proof -
  have now: "thread_pc t (w_threads w t)" using assms by (simp add: typed_def)
  note up = typed_upd [OF assms(1)] typed_same [OF assms(1)]
  from step show ?thesis
  proof (cases rule: thread_step_cases)
    case (closing n args k)
    then show ?thesis using now close_step_threads continuation_pc(1) up by metis
  next
    case (check m ok closed full)
    then show ?thesis using now enqueue_check_threads continuation_pc(2) up by metis
  next
    case (enqueue m ok full)
    then show ?thesis using now enqueue_send_threads continuation_pc(3) up by metis
  next
    case (result r)
    then show ?thesis using now send_result_threads continuation_pc(4) up by metis
  next
    case (starter n)
    have "thread_pc (Runner n) R_Spawn" by (simp add: runner_pc_def)
    then show ?thesis
      using starter_step_threads [OF starter(2)] assms(1) starter(1) unfolding typed_def
      by (metis fun_upd_apply thread_pc.simps(1))
  next
    case (runner n s)
    have "thread_pc (Writer n) W_Select" "thread_pc (Output n) O_Read" "thread_pc (Reader n) L_Read"
      "thread_pc (Keeper n) K_Start"
      by (simp_all add: thread_pc_defs)
    moreover obtain p' where "runner_pc n p'" "w_threads w' = (w_threads w)(Runner n := p')
        \<or> w_threads w' = (w_threads w)
          (Writer n := W_Select, Output n := O_Read, Reader n := L_Read, Keeper n := K_Start, Runner n := p')"
      using runner_step_threads [OF runner(3)] by blast
    ultimately have "w_threads w' u = w_threads w u \<or> thread_pc u (w_threads w' u)" for u
      by (elim disjE; cases u) simp_all
    then show ?thesis using assms(1) unfolding typed_def by metis
  next
    case (reader n s)
    then show ?thesis
      using reader_step_threads [OF reader(3)] up(1) [of t "w_threads w' t" w'] by (metis thread_pc.simps)
  next
    case (out n s)
    then show ?thesis
      using output_step_threads [OF out(3)] up(1) [of t "w_threads w' t" w'] by (metis thread_pc.simps)
  next
    case (keeper n s)
    then show ?thesis
      using keeper_step_threads [OF keeper(3)] up(1) [of t "w_threads w' t" w'] by (metis thread_pc.simps)
  next
    case (writer n s)
    then show ?thesis
      using writer_step_threads [OF writer(3)] up(1) [of t "w_threads w' t" w'] by (metis thread_pc.simps)
  next
    case (closer k)
    then show ?thesis
      using closer_step_threads [OF closer(2)] up(1) [of t "w_threads w' t" w'] by (metis thread_pc.simps)
  qed
qed

section \<open>The specification of a session\<close>

text \<open>What a session does to the outside without a change of its state.\<close>

fun io_effect :: "session_effect \<Rightarrow> bool" where
  "io_effect Registered = True"
| "io_effect (StartAnnounced l es) = True"
| "io_effect (BrowserWrite t m) = True"
| "io_effect BrowserPing = True"
| "io_effect (ConsoleClose t) = True"
| "io_effect _ = False"

inductive session_delta :: "registry_config \<Rightarrow> time \<Rightarrow> session \<Rightarrow> session \<Rightarrow> bool"
  for c :: registry_config and now :: time where
  d_same: "session_delta c now s s"
| d_touch: "session_delta c now s (touch now s)"
| d_enqueue: "int (length (ss_outbound s)) < rc_outbound_queue_depth c \<Longrightarrow>
    session_delta c now s (emit (Enqueued m) (s\<lparr>ss_outbound := ss_outbound s @ [m]\<rparr>))"
| d_dequeue: "ss_outbound s = m # ms \<Longrightarrow>
    session_delta c now s (emit (Dequeued m) (s\<lparr>ss_outbound := ms\<rparr>))"
| d_send: "length (ss_results s) < 3 \<Longrightarrow>
    session_delta c now s (s\<lparr>ss_results := ss_results s @ [r]\<rparr>)"
| d_receive: "ss_results s = r # rs \<Longrightarrow> session_delta c now s (s\<lparr>ss_results := rs\<rparr>)"
| d_write_done: "session_delta c now s (s\<lparr>ss_write_done := True\<rparr>)"
| d_io: "io_effect e \<Longrightarrow> session_delta c now s (emit e s)"
| d_calls: "session_delta c now s (s\<lparr>ss_trace := ss_trace s @ map ConsoleCall cs\<rparr>)"
| d_enter: "ss_once s = OnceIdle \<Longrightarrow>
    session_delta c now s (s\<lparr>ss_once := OnceRunning t C_State a\<rparr>)"
| d_stage: "ss_once s = OnceRunning t st a \<Longrightarrow>
    session_delta c now s
      ((close_stage_session c now t st a s)\<lparr>ss_once := next_stage t st a\<rparr>)"

definition deltas :: "world \<Rightarrow> world \<Rightarrow> bool" where
  "deltas w w' \<longleftrightarrow> (\<forall>m s. w_heap w m = Some s \<longrightarrow>
     (\<exists>s'. w_heap w' m = Some s' \<and> session_delta (w_cfg w) (w_now w) s s'))"

lemma deltas_same: "w_heap w' = w_heap w \<Longrightarrow> deltas w w'"
  by (auto simp: deltas_def intro: d_same)

lemma deltas_modify:
  assumes "w_heap w' = (w_heap w)(n := map_option f (w_heap w n))"
    and "\<And>s. w_heap w n = Some s \<Longrightarrow> session_delta (w_cfg w) (w_now w) s (f s)"
  shows "deltas w w'"
  using assms by (auto simp: deltas_def intro: d_same)

lemma deltas_put:
  assumes "w_heap w' = (w_heap w)(n \<mapsto> s')" and "w_heap w n = Some s"
    and "session_delta (w_cfg w) (w_now w) s s'"
  shows "deltas w w'"
  using assms by (auto simp: deltas_def intro: d_same)

text \<open>Which sessions a step may create.\<close>

definition creates :: "tid \<Rightarrow> pc \<Rightarrow> world \<Rightarrow> world \<Rightarrow> bool" where
  "creates t p w w' \<longleftrightarrow> (\<forall>m. w_heap w m = None \<and> w_heap w' m \<noteq> None \<longrightarrow>
     t = Starter m \<and> (\<exists>q r. p = S_Open q \<and> w_heap w' m = Some (new_session q r (w_now w))
       \<and> w_threads w' = (w_threads w)(Starter m := S_Configure q)))"

definition heap_ok :: "tid \<Rightarrow> pc \<Rightarrow> world \<Rightarrow> world \<Rightarrow> bool" where
  "heap_ok t p w w' \<longleftrightarrow> deltas w w' \<and> creates t p w w'"

lemma heap_ok_same: "w_heap w' = w_heap w \<Longrightarrow> heap_ok t p w w'"
  by (auto simp: heap_ok_def deltas_same creates_def)

lemma heap_ok_modify:
  assumes "w_heap w' = (w_heap w)(n := map_option f (w_heap w n))"
    and "\<And>s. w_heap w n = Some s \<Longrightarrow> session_delta (w_cfg w) (w_now w) s (f s)"
  shows "heap_ok t p w w'"
  using deltas_modify [OF assms] assms(1) by (auto simp: heap_ok_def creates_def)

lemma close_step_heap: "close_step t n args k w = Some w' \<Longrightarrow> heap_ok t p w w'"
proof (erule close_step_cases)
  fix s assume "w_heap w n = Some s" "ss_once s = OnceIdle"
    "w' = modify n (\<lambda>s. s\<lparr>ss_once := OnceRunning t C_State args\<rparr>) w"
  then show ?thesis
    by (intro heap_ok_modify [of _ _ n "\<lambda>s. s\<lparr>ss_once := OnceRunning t C_State args\<rparr>"])
      (auto simp: world_simps intro: d_enter)
next
  fix s a assume "w_heap w n = Some s" "w' = goto t k w"
  then show ?thesis by (intro heap_ok_same) (simp add: world_simps)
next
  fix s st a
  let ?s' = "(close_stage_session (w_cfg w) (w_now w) t st a s)\<lparr>ss_once := next_stage t st a\<rparr>"
  assume s: "w_heap w n = Some s" "ss_once s = OnceRunning t st a" "w_heap w' = (w_heap w)(n \<mapsto> ?s')"
  then show ?thesis
    using deltas_put [OF s(3) s(1) d_stage [OF s(2)]] by (auto simp: heap_ok_def creates_def)
qed

lemma enqueue_check_heap: "enqueue_check t n m ok closed full w = Some w' \<Longrightarrow> heap_ok t p w w'"
  by (erule enqueue_check_cases) (simp add: heap_ok_same world_simps)

lemma enqueue_send_heap: "enqueue_send t n m ok full w = Some w' \<Longrightarrow> heap_ok t p w w'"
proof (erule enqueue_send_cases)
  fix s assume "w_heap w n = Some s" "int (length (ss_outbound s)) < rc_outbound_queue_depth (w_cfg w)"
    "w' = goto t ok (modify n (\<lambda>s. emit (Enqueued m) (s\<lparr>ss_outbound := ss_outbound s @ [m]\<rparr>)) w)"
  then show ?thesis
    by (intro heap_ok_modify [of _ _ n "\<lambda>s. emit (Enqueued m) (s\<lparr>ss_outbound := ss_outbound s @ [m]\<rparr>)"])
      (auto simp: world_simps intro: d_enqueue)
qed (simp add: heap_ok_same world_simps)

lemma send_result_heap: "send_result t n r w = Some w' \<Longrightarrow> heap_ok t p w w'"
proof (erule send_result_cases)
  fix s assume "w_heap w n = Some s" "length (ss_results s) < 3"
    "w' = goto t Stopped (modify n (\<lambda>s. s\<lparr>ss_results := ss_results s @ [r]\<rparr>) w)"
  then show ?thesis
    by (intro heap_ok_modify [of _ _ n "\<lambda>s. s\<lparr>ss_results := ss_results s @ [r]\<rparr>"])
      (auto simp: world_simps intro: d_send)
qed

text \<open>Updates of the thread steps, in the form of \<open>heap_ok_modify\<close>.\<close>

lemma heap_ok_emit:
  "io_effect e \<Longrightarrow> w_heap w' = (w_heap w)(n := map_option (emit e) (w_heap w n)) \<Longrightarrow> heap_ok t p w w'"
  by (rule heap_ok_modify) (auto intro: d_io)

lemma heap_ok_touch:
  "w_heap w' = (w_heap w)(n := map_option (touch (w_now w)) (w_heap w n)) \<Longrightarrow> heap_ok t p w w'"
  by (rule heap_ok_modify) (auto intro: d_touch)

definition starting :: "pc \<Rightarrow> bool" where
  "starting p = (case p of Stopped \<Rightarrow> True | S_Enter q \<Rightarrow> True | S_Open q \<Rightarrow> True | _ \<Rightarrow> False)"

lemma starter_step_heap:
  assumes "starter_step n inp p (w_heap w n) w = Some w'" and "starting p \<Longrightarrow> w_heap w n = None"
  shows "heap_ok (Starter n) p w w'"
  using assms(1)
proof (cases rule: starter_step_cases)
  case (opened q r)
  then have "w_heap w n = None" using assms(2) by (simp add: starting_def)
  then show ?thesis
    using opened by (auto simp: heap_ok_def deltas_def creates_def world_simps intro: d_same)
next
  case (enter q)
  then show ?thesis by (auto simp: start_enter_def world_simps intro: heap_ok_same)
next
  case (insert q s)
  then show ?thesis
    by (cases "registry_full w")
      (simp_all add: start_insert_def world_simps heap_ok_same heap_ok_emit [of Registered _ w n])
next
  case (announce q s)
  then show ?thesis
    by (simp add: world_simps heap_ok_emit [of "start_announced (w_cfg w) s" _ w n] start_announced_def)
qed (auto simp: world_simps heap_ok_emit [of "ConsoleClose (Starter n)" _ w n] heap_ok_same)

lemma runner_step_heap:
  assumes "runner_step n inp p s w = Some w'" and "w_heap w n = Some s"
  shows "heap_ok t p' w w'"
  using assms(1)
proof (cases rule: runner_step_cases)
  case (receive r rs)
  then show ?thesis
    using assms(2) by (intro heap_ok_modify [of _ _ n "\<lambda>s. s\<lparr>ss_results := rs\<rparr>"])
      (auto simp: world_simps intro: d_receive)
next
  case (flush r m ms)
  then show ?thesis by (simp add: world_simps heap_ok_emit [of "BrowserWrite (Runner n) m" _ w n])
qed (auto simp: world_simps heap_ok_same)

lemma reader_step_heap:
  assumes "reader_step n inp p s w = Some w'"
  shows "heap_ok t p' w w'"
  using assms
proof (cases rule: reader_step_cases)
  case (dispatched c io calls q)
  then show ?thesis
    by (intro heap_ok_modify [of _ _ n "\<lambda>s. s\<lparr>ss_trace := ss_trace s @ map ConsoleCall calls\<rparr>"])
      (auto simp: world_simps intro: d_calls)
qed (auto simp: world_simps heap_ok_same heap_ok_touch [of _ w n])

lemma output_step_heap:
  assumes "output_step n inp p s w = Some w'"
  shows "heap_ok t p' w w'"
  using assms
  by (cases rule: output_step_cases) (auto simp: world_simps heap_ok_same heap_ok_touch [of _ w n])

lemma keeper_step_heap:
  assumes "keeper_step n inp p s w = Some w'"
  shows "heap_ok t p' w w'"
  using assms
  by (cases rule: keeper_step_cases)
    (auto simp: world_simps heap_ok_same heap_ok_emit [of BrowserPing _ w n])

lemma writer_step_heap:
  assumes "writer_step n inp p s w = Some w'" and "w_heap w n = Some s"
  shows "heap_ok t p' w w'"
  using assms(1)
proof (cases rule: writer_step_cases)
  case (take m ms)
  then show ?thesis
    using assms(2) by (intro heap_ok_modify [of _ _ n "\<lambda>s. emit (Dequeued m) (s\<lparr>ss_outbound := ms\<rparr>)"])
      (auto simp: world_simps intro: d_dequeue)
next
  case finish
  then show ?thesis
    by (intro heap_ok_modify [of _ _ n "\<lambda>s. s\<lparr>ss_write_done := True\<rparr>"])
      (auto simp: world_simps intro: d_write_done)
next
  case (wrote m q)
  then show ?thesis by (simp add: world_simps heap_ok_emit [of "BrowserWrite (Writer n) m" _ w n])
qed (auto simp: world_simps heap_ok_same)

lemma closer_step_heap:
  assumes "closer_step k inp p w = Some w'"
  shows "heap_ok t p' w w'"
  using assms by (cases rule: closer_step_cases) (auto simp: world_simps intro: heap_ok_same)

lemma thread_step_heap:
  assumes "thread_step t inp w = Some w'"
    and "\<And>n. starting (w_threads w (Starter n)) \<Longrightarrow> w_heap w n = None"
  shows "heap_ok t (w_threads w t) w w'"
  using assms(1)
proof (cases rule: thread_step_cases)
  case (starter n)
  then show ?thesis using starter_step_heap assms(2) by blast
qed (blast intro: close_step_heap enqueue_check_heap enqueue_send_heap send_result_heap
      runner_step_heap reader_step_heap output_step_heap keeper_step_heap writer_step_heap
      closer_step_heap)+

section \<open>The base invariant\<close>

text \<open>
  Positive settings, well-typed program counters, and no session before its \<^verbatim>\<open>Start\<close> call has
  opened a console.
\<close>

definition base_inv :: "world \<Rightarrow> bool" where
  "base_inv w \<longleftrightarrow> (\<exists>c. w_cfg w = new_registry_config c) \<and> typed w
     \<and> (\<forall>n. starting (w_threads w (Starter n)) \<longrightarrow> w_heap w n = None)"

lemma thread_step_cfg: "thread_step t inp w = Some w' \<Longrightarrow> w_cfg w' = w_cfg w"
proof (erule thread_step_cases)
  fix n assume "starter_step n inp (w_threads w t) (w_heap w n) w = Some w'"
  then show ?thesis
    by (cases rule: starter_step_cases) (auto simp: world_simps start_enter_def start_insert_def)
qed (auto simp: world_simps elim!: close_step_cases enqueue_check_cases enqueue_send_cases
      send_result_cases runner_step_cases reader_step_cases output_step_cases keeper_step_cases
      writer_step_cases closer_step_cases)

text \<open>A step changes the program counter of its own thread, and of those it spawns.\<close>

lemma thread_step_frame:
  assumes "thread_step t inp w = Some w'" and "u \<noteq> t"
  shows "w_threads w' u = w_threads w u
    \<or> (\<exists>n. t = Starter n \<and> w_threads w t = S_Go \<and> u = Runner n \<and> w_threads w' u = R_Spawn)
    \<or> (\<exists>n. t = Runner n \<and> w_threads w t = R_Spawn \<and>
         (u, w_threads w' u) \<in>
           {(Writer n, W_Select), (Output n, O_Read), (Reader n, L_Read), (Keeper n, K_Start)})"
  using assms(1)
proof (cases rule: thread_step_cases)
  case (closing n args k)
  then show ?thesis using close_step_threads assms(2) by fastforce
next
  case (check m ok closed full)
  then show ?thesis using enqueue_check_threads assms(2) by fastforce
next
  case (enqueue m ok full)
  then show ?thesis using enqueue_send_threads assms(2) by fastforce
next
  case (result r)
  then show ?thesis using send_result_threads assms(2) by fastforce
next
  case (starter n)
  obtain p' where "w_threads w' = (w_threads w)(Starter n := p')
      \<or> w_threads w t = S_Go \<and> w_threads w' = (w_threads w)(Runner n := R_Spawn, Starter n := p')"
    using starter_step_threads [OF starter(2)] by blast
  then show ?thesis using assms(2) starter(1) by (cases "u = Runner n") auto
next
  case (runner n s)
  obtain p' where "w_threads w' = (w_threads w)(Runner n := p')
      \<or> w_threads w t = R_Spawn \<and> w_threads w' = (w_threads w)
          (Writer n := W_Select, Output n := O_Read, Reader n := L_Read, Keeper n := K_Start, Runner n := p')"
    using runner_step_threads [OF runner(3)] by blast
  then show ?thesis using assms(2) runner(1) by (elim disjE; cases u) auto
next
  case (reader n s)
  then show ?thesis using reader_step_threads [OF reader(3)] assms(2) by (metis fun_upd_apply)
next
  case (out n s)
  then show ?thesis using output_step_threads [OF out(3)] assms(2) by (metis fun_upd_apply)
next
  case (keeper n s)
  then show ?thesis using keeper_step_threads [OF keeper(3)] assms(2) by (metis fun_upd_apply)
next
  case (writer n s)
  then show ?thesis using writer_step_threads [OF writer(3)] assms(2) by (metis fun_upd_apply)
next
  case (closer k)
  then show ?thesis using closer_step_threads [OF closer(2)] assms(2) by (metis fun_upd_apply)
qed

lemma thread_step_frame_starter:
  "thread_step t inp w = Some w' \<Longrightarrow> Starter n \<noteq> t \<Longrightarrow> w_threads w' (Starter n) = w_threads w (Starter n)"
  using thread_step_frame [of t inp w w' "Starter n"] by auto

text \<open>Only its own steps move a starting call on, and never back to the start.\<close>

lemma starting_own_step:
  assumes "thread_step (Starter n) inp w = Some w'" and "typed w"
    and "starting (w_threads w' (Starter n))"
  shows "(\<exists>q. w_threads w (Starter n) = S_Enter q) \<and> w_heap w' = w_heap w"
proof -
  have ty: "starter_pc n (w_threads w (Starter n))" using assms(2) by (auto simp: typed_def dest: spec [of _ "Starter n"])
  from assms(1) show ?thesis
  proof (cases rule: thread_step_cases)
    case (closing m args k)
    then show ?thesis
      using close_step_threads [OF closing(2)] assms(3) ty by (auto simp: starting_def starter_pc_def)
  next
    case (check m ok closed full)
    then show ?thesis
      using enqueue_check_threads [OF check(2)] assms(3) ty by (auto simp: starting_def starter_pc_def)
  next
    case (enqueue m ok full)
    then show ?thesis
      using enqueue_send_threads [OF enqueue(2)] assms(3) ty
      by (auto simp: starting_def starter_pc_def is_initial_iff)
  next
    case (result r)
    then show ?thesis using ty by (simp add: starter_pc_def)
  next
    case (starter m)
    then show ?thesis
      using assms(3)
      by (cases rule: starter_step_cases [OF starter(2)])
        (auto simp: world_simps starting_def start_enter_def start_insert_def split: if_splits)
  qed auto
qed

lemma base_inv_step:
  assumes "base_inv w" and "exec_action a w = Some w'"
  shows "base_inv w' \<and> deltas w w'"
proof (cases a)
  case (Thread t inp)
  then have step: "thread_step t inp w = Some w'" using assms(2) by simp
  have h: "heap_ok t (w_threads w t) w w'"
    using thread_step_heap [OF step] assms(1) by (simp add: base_inv_def)
  have "w_heap w' n = None" if st: "starting (w_threads w' (Starter n))" for n
  proof (cases "t = Starter n")
    case True
    then show ?thesis
      using starting_own_step [of n inp w w'] step st assms(1) by (auto simp: base_inv_def starting_def)
  next
    case False
    then have "w_threads w' (Starter n) = w_threads w (Starter n)"
      using thread_step_frame_starter [OF step] by auto
    then have "w_heap w n = None" using st assms(1) by (simp add: base_inv_def)
    then show ?thesis using h False by (auto simp: heap_ok_def creates_def)
  qed
  then show ?thesis
    using assms(1) thread_step_cfg [OF step] thread_step_typed [OF _ step] h
    by (simp add: base_inv_def heap_ok_def)
next
  case (CallStart n q)
  then have w: "w_threads w (Starter n) = Stopped" "w' = goto (Starter n) (S_Enter q) w"
    using assms(2) by (simp_all split: if_splits)
  then have "typed w'"
    using assms(1) by (auto simp: base_inv_def world_simps starter_pc_def intro: typed_upd [of w "Starter n" "S_Enter q"])
  moreover have "w_heap w n = None" using assms(1) w by (simp add: base_inv_def starting_def)
  ultimately show ?thesis
    using assms(1) w by (auto simp: base_inv_def world_simps intro: deltas_same)
next
  case (CallCloseAll k r)
  then have w: "w' = goto (Closer k) (A_Collect r) w"
    using assms(2) by (simp split: if_splits)
  then have "typed w'"
    using assms(1) by (auto simp: base_inv_def world_simps closer_pc_def intro: typed_upd [of w "Closer k" "A_Collect r"])
  then show ?thesis
    using assms(1) w by (auto simp: base_inv_def world_simps intro: deltas_same)
qed (use assms in \<open>auto simp: base_inv_def typed_def intro: deltas_same split: if_splits\<close>)

lemma exec_action_cfg: "exec_action a w = Some w' \<Longrightarrow> w_cfg w' = w_cfg w"
  by (cases a) (auto simp: world_simps thread_step_cfg split: if_splits)

lemma created_session:
  assumes "base_inv w" and "exec_action a w = Some w'" and "w_heap w n = None" and "w_heap w' n = Some s"
  shows "\<exists>q r. s = new_session q r (w_now w)"
proof (cases a)
  case (Thread t inp)
  then have "heap_ok t (w_threads w t) w w'"
    using assms(1,2) by (intro thread_step_heap) (auto simp: base_inv_def)
  then have "\<exists>q r. w_heap w' n = Some (new_session q r (w_now w))"
    using assms(3,4) unfolding heap_ok_def creates_def by blast
  then show ?thesis using assms(4) by simp
qed (use assms in \<open>auto simp: world_simps split: if_splits\<close>)

lemma base_inv_initial: "system_initial w \<Longrightarrow> base_inv w"
  by (auto simp: system_initial_def base_inv_def initial_world_def typed_def)
    (case_tac t; simp add: thread_pc_defs)

interpretation base: invariant_system system_initial system_step base_inv
  by unfold_locales (auto simp: base_inv_initial base_inv_step elim: system_stepE)

text \<open>
  A thread only ever stands at program counters of its own code: in every reachable
  state, under every interleaving.
\<close>

theorem threads_typed:
  assumes "reachable w"
  shows "thread_pc t (w_threads w t)"
  using base.inv_reachable [OF assms] by (simp add: base_inv_def typed_def)

theorem threads_typed_witness: "thread_pc (Reader 0) (w_threads (initial_world None 0) (Reader 0))"
  by (rule threads_typed [OF initial_reachable])

text \<open>
  Property C4: the registry refines the specification of a session: every step of every thread,
  call, timer and cancellation, changes each existing session by one of the atomic changes of
  \<open>session_delta\<close>, and no session ever disappears.
\<close>

theorem system_refines_session:
  assumes "reachable w" and "exec_action a w = Some w'" and "w_heap w n = Some s"
  shows "\<exists>s'. w_heap w' n = Some s' \<and> session_delta (w_cfg w) (w_now w) s s'"
  using base_inv_step [OF base.inv_reachable [OF assms(1)] assms(2)] assms(3)
  by (auto simp: deltas_def)

end
