(* ===== verification/Session_Examples.thy ===== *)
theory Session_Examples
  imports Session_Spec
begin

text \<open>
  Concrete runs of the system, evaluated by the kernel: a session that starts, and one that the
  client then closes. They show that the states the properties speak of are reached.
\<close>

definition demo_request :: start_request where
  "demo_request =
     \<lparr>st_grant = \<lparr>vr_ip_address = ''10.0.0.8'', vr_raw_response = ''{}''\<rparr>, st_browser = True,
      st_bridge = True, st_account = ''pi'', st_initial = [new_server_authorized],
      st_cleanup = True\<rparr>"

text \<open>A call of \<^verbatim>\<open>Start\<close> that runs through undisturbed; the text is the random source.\<close>

definition demo_start :: "nat \<Rightarrow> string \<Rightarrow> action list" where
  "demo_start n random =
     [CallStart n demo_request, Thread (Starter n) InNone, Thread (Starter n) (InOpen None random),
      Thread (Starter n) (InConn None)] @ replicate 7 (Thread (Starter n) InNone)"

text \<open>The reader gets a close message, the runner flushes and closes, the writer ends.\<close>

definition demo_client_close :: "nat \<Rightarrow> action list" where
  "demo_client_close n =
     [Thread (Runner n) InNone, Thread (Reader n) (InRead (Ok (new_server_close ''bye''))),
      Thread (Reader n) InNone, Thread (Reader n) (InConsole quiet_console),
      Thread (Reader n) InNone, Thread (Runner n) InNone, Thread (Runner n) (InConn None),
      Thread (Runner n) InNone]
     @ replicate 9 (Thread (Runner n) InNone)
     @ [Thread (Writer n) (InChoice SessionClosed), Thread (Writer n) InNone, Thread (Runner n) InNone]"

definition runs_to :: "action list \<Rightarrow> (world \<Rightarrow> bool) \<Rightarrow> bool" where
  "runs_to as P = (case run_actions as (initial_world None 0) of None \<Rightarrow> False | Some w \<Rightarrow> P w)"

lemma runs_toE:
  assumes "runs_to as P"
  obtains w where "reachable w" "P w"
proof (cases "run_actions as (initial_world None 0)")
  case None
  then show ?thesis using assms by (simp add: runs_to_def)
next
  case (Some w)
  then show ?thesis
    using assms that [OF run_actions_reachable [OF initial_reachable Some]] by (simp add: runs_to_def)
qed

definition has_session :: "nat \<Rightarrow> (session \<Rightarrow> bool) \<Rightarrow> world \<Rightarrow> bool" where
  "has_session n P w = (case w_heap w n of None \<Rightarrow> False | Some s \<Rightarrow> P s)"

lemma has_sessionE:
  assumes "has_session n P w"
  obtains s where "w_heap w n = Some s" "P s"
  using assms by (auto simp: has_session_def split: option.splits)

lemma demo_started:
  "runs_to (demo_start 0 ''random00'')
     (has_session 0 (\<lambda>s. ss_outbound s = [new_server_authorized] \<and> ss_state s = BrowserActive
        \<and> si_id (ss_info s) = ''72616e646f6d3030''))"
  by code_simp

lemma demo_closed:
  "runs_to (demo_start 0 ''random00'' @ demo_client_close 0)
     (has_session 0 (\<lambda>s. ss_once s = OnceDone (CloseArgs ClientClosed 1000 ''bye'')
        \<and> ss_state s = BrowserClosed \<and> ss_end_reason s = Some ClientClosed))"
  by code_simp

theorem system_refines_session_witness:
  "\<exists>(w :: world) (w' :: world) (s :: session) (s' :: session). ss_outbound s = [new_server_authorized] \<and> ss_outbound s' = []
     \<and> w_heap w 0 = Some s \<and> w_heap w' 0 = Some s' \<and> session_delta (w_cfg w) (w_now w) s s'"
proof -
  let ?a = "Thread (Writer 0) (InChoice CaseReady)"
  let ?P = "\<lambda>w. has_session 0 (\<lambda>s. ss_outbound s = [new_server_authorized]) w
    \<and> (case exec_action ?a w of None \<Rightarrow> False | Some w' \<Rightarrow> has_session 0 (\<lambda>s. ss_outbound s = []) w')"
  have "runs_to (demo_start 0 ''random00'' @ [Thread (Runner 0) InNone]) ?P" by code_simp
  then obtain w where w: "reachable w" "?P w" by (rule runs_toE)
  then obtain s where s: "w_heap w 0 = Some s" "ss_outbound s = [new_server_authorized]"
    by (auto elim: has_sessionE)
  from w(2) obtain w' where w': "exec_action ?a w = Some w'" "has_session 0 (\<lambda>s. ss_outbound s = []) w'"
    by (auto split: option.splits)
  then obtain s' where s': "w_heap w' 0 = Some s'" "ss_outbound s' = []"
    by (auto elim: has_sessionE)
  have "session_delta (w_cfg w) (w_now w) s s'"
    using system_refines_session [OF w(1) w'(1) s(1)] s'(1) by simp
  then show ?thesis using s s' by blast
qed

end
