(* ===== verification/Session_Closing.thy ===== *)
theory Session_Closing
  imports Session_Examples
begin

text \<open>
  What holds of every single session: its outbound queue is a bounded first-in first-out channel,
  and its closing function runs at most once, in order, with one set of arguments. Both are
  proved on the abstract changes of \<open>session_delta\<close> and carried over by the refinement. At the end
  the most abstract view, a machine of three states, and that a session refines it.
\<close>

section \<open>Lifting to the system\<close>

text \<open>An invariant of a session that a new session has and every change keeps.\<close>

locale session_invariant =
  fixes inv :: "registry_config \<Rightarrow> session \<Rightarrow> bool"
  assumes new_ok: "inv (new_registry_config c) (new_session q r now)"
    and delta_ok: "inv (new_registry_config c) s \<Longrightarrow>
      session_delta (new_registry_config c) now s s' \<Longrightarrow> inv (new_registry_config c) s'"
begin

definition everywhere :: "world \<Rightarrow> bool" where
  "everywhere w \<longleftrightarrow> base_inv w \<and> (\<forall>n s. w_heap w n = Some s \<longrightarrow> inv (w_cfg w) s)"

lemma everywhere_initial: "system_initial w \<Longrightarrow> everywhere w"
  using base_inv_initial by (auto simp: everywhere_def system_initial_def initial_world_def)

lemma everywhere_step:
  assumes "everywhere w" and "exec_action a w = Some w'"
  shows "everywhere w'"
proof -
  have b: "base_inv w" and i: "\<And>n s. w_heap w n = Some s \<Longrightarrow> inv (w_cfg w) s"
    using assms(1) by (auto simp: everywhere_def)
  have b': "base_inv w'" and d: "deltas w w'" using base_inv_step [OF b assms(2)] by auto
  obtain c where c: "w_cfg w = new_registry_config c" using b by (auto simp: base_inv_def)
  have cfg: "w_cfg w' = w_cfg w" using exec_action_cfg [OF assms(2)] .
  have "inv (w_cfg w') s'" if s': "w_heap w' n = Some s'" for n s'
  proof (cases "w_heap w n")
    case (Some s)
    then obtain s'' where "w_heap w' n = Some s''" "session_delta (w_cfg w) (w_now w) s s''"
      using d by (auto simp: deltas_def)
    then show ?thesis using delta_ok i [OF Some] s' cfg c by auto
  next
    case None
    then obtain q r where "s' = new_session q r (w_now w)"
      using created_session [OF b assms(2)] s' by blast
    then show ?thesis using new_ok cfg c by simp
  qed
  then show ?thesis using b' by (simp add: everywhere_def)
qed

end

sublocale session_invariant \<subseteq> sys: invariant_system system_initial system_step everywhere
  by unfold_locales (auto intro: everywhere_initial everywhere_step elim: system_stepE)

context session_invariant
begin

lemma session_inv: "reachable w \<Longrightarrow> w_heap w n = Some s \<Longrightarrow> inv (w_cfg w) s"
  using sys.inv_reachable by (auto simp: everywhere_def)

end

section \<open>The outbound queue\<close>

fun enqueued :: "session_effect list \<Rightarrow> message list" where
  "enqueued [] = []"
| "enqueued (Enqueued m # es) = m # enqueued es"
| "enqueued (_ # es) = enqueued es"

fun dequeued :: "session_effect list \<Rightarrow> message list" where
  "dequeued [] = []"
| "dequeued (Dequeued m # es) = m # dequeued es"
| "dequeued (_ # es) = dequeued es"

lemma enqueued_append [simp]: "enqueued (a @ b) = enqueued a @ enqueued b"
  by (induction a rule: enqueued.induct) simp_all

lemma dequeued_append [simp]: "dequeued (a @ b) = dequeued a @ dequeued b"
  by (induction a rule: dequeued.induct) simp_all

lemma no_queue_calls [simp]:
  "enqueued (map ConsoleCall cs) = []" "dequeued (map ConsoleCall cs) = []"
  by (induction cs) simp_all

lemma no_queue_io [simp]: "io_effect e \<Longrightarrow> enqueued [e] = [] \<and> dequeued [e] = []"
  by (cases e) simp_all

text \<open>What a stage of closing leaves alone.\<close>

lemma close_stage_keeps [simp]:
  "ss_info (close_stage_session c now t st a s) = ss_info s"
  "ss_cleanup (close_stage_session c now t st a s) = ss_cleanup s"
  "ss_outbound (close_stage_session c now t st a s) = ss_outbound s"
  "ss_results (close_stage_session c now t st a s) = ss_results s"
  "ss_write_done (close_stage_session c now t st a s) = ss_write_done s"
  by (cases a; cases st; simp add: emit_def)+

lemma close_stage_queue [simp]:
  "enqueued (ss_trace (close_stage_session c now t st a s)) = enqueued (ss_trace s)"
  "dequeued (ss_trace (close_stage_session c now t st a s)) = dequeued (ss_trace s)"
  by (cases a; cases st; simp add: emit_def end_announced_def)+

definition queue_inv :: "registry_config \<Rightarrow> session \<Rightarrow> bool" where
  "queue_inv c s \<longleftrightarrow> enqueued (ss_trace s) = dequeued (ss_trace s) @ ss_outbound s
     \<and> int (length (ss_outbound s)) \<le> rc_outbound_queue_depth c"

lemma queue_inv_new: "queue_inv (new_registry_config c) (new_session q r now)"
  by (simp add: queue_inv_def new_session_def new_registry_config_def override_def
      default_outbound_queue_size_def split: option.split)

lemma queue_inv_delta: "queue_inv c s \<Longrightarrow> session_delta c now s s' \<Longrightarrow> queue_inv c s'"
  by (erule session_delta.cases) (auto simp: queue_inv_def touch_def world_simps)

interpretation queue: session_invariant queue_inv
  by unfold_locales (auto simp: queue_inv_new intro: queue_inv_delta)

text \<open>
  Property C13: the outbound channel of a session is first-in first-out and bounded, under every
  interleaving: what the write loop took is a prefix of what was enqueued, the rest is exactly
  what is waiting, and never more than the configured depth waits.
\<close>

theorem outbound_fifo:
  assumes "reachable w" and "w_heap w n = Some s"
  shows "enqueued (ss_trace s) = dequeued (ss_trace s) @ ss_outbound s
    \<and> int (length (ss_outbound s)) \<le> rc_outbound_queue_depth (w_cfg w)"
  using queue.session_inv [OF assms] by (simp add: queue_inv_def)

section \<open>Closing\<close>

fun stage_index :: "close_stage \<Rightarrow> nat" where
  "stage_index C_State = 0"
| "stage_index C_Chan = 1"
| "stage_index C_Browser = 2"
| "stage_index C_Console = 3"
| "stage_index C_Dereg = 4"
| "stage_index C_Closed = 5"
| "stage_index C_Audit = 6"
| "stage_index C_Cleanup = 7"

text \<open>How many statements of the closing function have run.\<close>

fun close_progress :: "once_state \<Rightarrow> nat" where
  "close_progress OnceIdle = 0"
| "close_progress (OnceRunning t st a) = stage_index st"
| "close_progress (OnceDone a) = 8"

fun once_args :: "once_state \<Rightarrow> close_args option" where
  "once_args OnceIdle = None"
| "once_args (OnceRunning t st a) = Some a"
| "once_args (OnceDone a) = Some a"

fun args_reason :: "close_args \<Rightarrow> end_reason" where
  "args_reason (CloseArgs r c x) = r"

fun close_event :: "session_effect \<Rightarrow> bool" where
  "close_event (BrowserClose c x) = True"
| "close_event Deregistered = True"
| "close_event (EndAnnounced l es) = True"
| "close_event (CleanupRun sn) = True"
| "close_event _ = False"

definition close_events :: "session_effect list \<Rightarrow> session_effect list" where
  "close_events tr = filter close_event tr"

lemma close_events_append [simp]: "close_events (a @ b) = close_events a @ close_events b"
  by (simp add: close_events_def)

lemma close_events_calls [simp]: "close_events (map ConsoleCall cs) = []"
  by (induction cs) (simp_all add: close_events_def)

lemma close_events_single:
  "close_events [e] = (if close_event e then [e] else [])"
  by (simp add: close_events_def)

lemma io_not_close [simp]: "io_effect e \<Longrightarrow> \<not> close_event e"
  by (cases e) simp_all

text \<open>The audit event and the log line of the end, and the snapshot the hook gets.\<close>

definition end_effect_ok :: "registry_config \<Rightarrow> close_args \<Rightarrow> session_info \<Rightarrow> session_effect \<Rightarrow> bool" where
  "end_effect_ok c a i e =
     (case e of
        EndAnnounced l es \<Rightarrow>
          ll_level l = end_level (args_reason a) \<and> length es = (if rc_audit_sink c then 1 else 0) \<and>
          (\<forall>ev \<in> set es. ae_name ev = ''session_ended'' \<and> ae_session ev = si_id i \<and>
             ae_fields ev ''endReason'' = Some (end_reason_string (args_reason a)))
      | CleanupRun sn \<Rightarrow>
          sn_id sn = si_id i \<and> sn_state sn = BrowserClosed \<and> sn_end_reason sn = Some (args_reason a)
      | _ \<Rightarrow> True)"

text \<open>The effects of the closing function up to a number of statements, as kinds in order.\<close>

fun close_script :: "nat \<Rightarrow> close_args \<Rightarrow> bool \<Rightarrow> session_effect list \<Rightarrow> bool" where
  "close_script k (CloseArgs r c x) cleanup es =
     (if k < 3 then es = []
      else if k < 5 then es = [BrowserClose c x]
      else if k < 7 then es = [BrowserClose c x, Deregistered]
      else (\<exists>l a. es = [BrowserClose c x, Deregistered, EndAnnounced l a] \<and> (k = 7 \<or> \<not> cleanup))
         \<or> (\<exists>l a sn. es = [BrowserClose c x, Deregistered, EndAnnounced l a, CleanupRun sn]
              \<and> k = 8 \<and> cleanup))"

definition state_at :: "nat \<Rightarrow> browser_state" where
  "state_at k = (if k = 0 then BrowserActive else if k < 6 then BrowserClosing else BrowserClosed)"

definition close_inv :: "registry_config \<Rightarrow> session \<Rightarrow> bool" where
  "close_inv c s \<longleftrightarrow>
     ss_state s = state_at (close_progress (ss_once s)) \<and>
     ss_closed s = (1 < close_progress (ss_once s)) \<and>
     (case once_args (ss_once s) of
        None \<Rightarrow> close_events (ss_trace s) = [] \<and> ss_end_reason s = None \<and> ss_ended_at s = None
      | Some a \<Rightarrow>
          close_script (close_progress (ss_once s)) a (ss_cleanup s) (close_events (ss_trace s)) \<and>
          ss_end_reason s = (if close_progress (ss_once s) = 0 then None else Some (args_reason a)) \<and>
          (\<forall>e \<in> set (close_events (ss_trace s)). end_effect_ok c a (ss_info s) e)) \<and>
     (3 < close_progress (ss_once s) \<longrightarrow> (\<exists>t. ConsoleClose t \<in> set (ss_trace s)))"

lemma close_inv_new: "close_inv c (new_session q r now)"
  by (simp add: close_inv_def new_session_def state_at_def close_events_def)

lemma stage_step_keeps:
  assumes "close_inv c s" and "ss_once s = OnceRunning t st a"
  shows "close_inv c ((close_stage_session c now t st a s)\<lparr>ss_once := next_stage t st a\<rparr>)"
  using assms
  by (cases a; cases st)
    (auto simp: close_inv_def state_at_def close_events_single emit_def end_announced_def
      end_effect_ok_def log_end_def session_audit_event_def audit_payload_def ended_fields_def
      session_snapshot_def)

lemma close_inv_plain:
  assumes "close_inv c s" and "ss_once s' = ss_once s" "ss_state s' = ss_state s"
    "ss_closed s' = ss_closed s" "ss_end_reason s' = ss_end_reason s" "ss_ended_at s' = ss_ended_at s"
    "ss_cleanup s' = ss_cleanup s" "ss_info s' = ss_info s"
    "ss_trace s' = ss_trace s @ es" "close_events es = []"
  shows "close_inv c s'"
  using assms by (auto simp: close_inv_def split: option.splits)

lemma close_inv_delta: "session_delta c now s s' \<Longrightarrow> close_inv c s \<Longrightarrow> close_inv c s'"
proof (induction rule: session_delta.induct)
  case (d_io e s)
  then show ?case by (rule_tac close_inv_plain [of c s _ "[e]"]) (simp_all add: world_simps close_events_single)
next
  case (d_enqueue s m)
  then show ?case
    by (rule_tac close_inv_plain [of c s _ "[Enqueued m]"]) (simp_all add: world_simps close_events_single)
next
  case (d_dequeue s m ms)
  then show ?case
    by (rule_tac close_inv_plain [of c s _ "[Dequeued m]"]) (simp_all add: world_simps close_events_single)
next
  case (d_calls s cs)
  then show ?case by (rule_tac close_inv_plain [of c s _ "map ConsoleCall cs"]) simp_all
next
  case (d_enter s t a)
  then show ?case by (cases a) (simp add: close_inv_def state_at_def)
next
  case (d_stage s t st a)
  then show ?case by (intro stage_step_keeps)
qed (rule_tac close_inv_plain [where es = "[]"], simp_all add: touch_def close_events_def)+

interpretation closing: session_invariant close_inv
  by unfold_locales (auto simp: close_inv_new intro: close_inv_delta)

text \<open>
  Property C5: however many goroutines close a session and whenever they do, its closing function
  runs at most once and in order: before the first close nothing has happened; while it runs its
  effects are a prefix of the script of the first caller's arguments; once it is done the browser
  was closed with that code and reason, the console was closed, the session was deregistered, its
  end was announced at the level and with the reason of that first close, and the cleanup hook,
  if there is one, ran after all that and saw the final state.
\<close>

theorem close_runs_once:
  assumes "reachable w" and "w_heap w n = Some s"
  shows "(case ss_once s of
      OnceIdle \<Rightarrow> close_events (ss_trace s) = [] \<and> ss_state s = BrowserActive \<and> \<not> ss_closed s
    | OnceRunning t st a \<Rightarrow> close_script (stage_index st) a (ss_cleanup s) (close_events (ss_trace s))
    | OnceDone (CloseArgs r code text) \<Rightarrow>
        ss_state s = BrowserClosed \<and> ss_closed s \<and> ss_end_reason s = Some r \<and>
        (\<exists>t. ConsoleClose t \<in> set (ss_trace s)) \<and>
        (\<exists>l es sn. ll_level l = end_level r \<and> length es = (if rc_audit_sink (w_cfg w) then 1 else 0) \<and>
           (\<forall>ev \<in> set es. ae_name ev = ''session_ended'' \<and> ae_session ev = si_id (ss_info s) \<and>
              ae_fields ev ''endReason'' = Some (end_reason_string r)) \<and>
           (if ss_cleanup s
            then close_events (ss_trace s) =
                [BrowserClose code text, Deregistered, EndAnnounced l es, CleanupRun sn] \<and>
              sn_state sn = BrowserClosed \<and> sn_end_reason sn = Some r
            else close_events (ss_trace s) = [BrowserClose code text, Deregistered, EndAnnounced l es])))"
proof (cases "ss_once s")
  case OnceIdle
  then show ?thesis using closing.session_inv [OF assms] by (simp add: close_inv_def state_at_def)
next
  case (OnceRunning t st a)
  then show ?thesis using closing.session_inv [OF assms] by (simp add: close_inv_def)
next
  case (OnceDone a)
  obtain r code x where a: "a = CloseArgs r code x" by (cases a)
  have inv: "close_inv (w_cfg w) s" by (rule closing.session_inv [OF assms])
  show ?thesis
  proof (cases "ss_cleanup s")
    case True
    then obtain l es sn where ev: "close_events (ss_trace s) =
        [BrowserClose code x, Deregistered, EndAnnounced l es, CleanupRun sn]"
      using inv OnceDone a by (auto simp: close_inv_def)
    then show ?thesis
      using inv OnceDone a True by (auto simp: close_inv_def state_at_def end_effect_ok_def)
  next
    case False
    then obtain l es where ev: "close_events (ss_trace s) =
        [BrowserClose code x, Deregistered, EndAnnounced l es]"
      using inv OnceDone a by (auto simp: close_inv_def)
    then show ?thesis
      using inv OnceDone a False by (auto simp: close_inv_def state_at_def end_effect_ok_def)
  qed
qed

theorem close_runs_once_witness:
  "\<exists>(w :: world) s l es sn. w_heap w 0 = Some s \<and> close_events (ss_trace s) =
     [BrowserClose 1000 ''bye'', Deregistered, EndAnnounced l es, CleanupRun sn]"
proof -
  have "runs_to (demo_start 0 ''random00'' @ demo_client_close 0)
     (has_session 0 (\<lambda>s. ss_once s = OnceDone (CloseArgs ClientClosed 1000 ''bye'') \<and> ss_cleanup s))"
    by code_simp
  then obtain w where w: "reachable w"
    "has_session 0 (\<lambda>s. ss_once s = OnceDone (CloseArgs ClientClosed 1000 ''bye'') \<and> ss_cleanup s) w"
    by (rule runs_toE)
  then obtain s where s: "w_heap w 0 = Some s"
    "ss_once s = OnceDone (CloseArgs ClientClosed 1000 ''bye'')" "ss_cleanup s"
    by (auto elim: has_sessionE)
  have "\<exists>l es sn. close_events (ss_trace s) =
      [BrowserClose 1000 ''bye'', Deregistered, EndAnnounced l es, CleanupRun sn]"
    using close_runs_once [OF w(1) s(1)] s(2,3) by auto
  then show ?thesis using s(1) by blast
qed

theorem outbound_fifo_witness:
  "\<exists>(w :: world) s. w_heap w 0 = Some s \<and> enqueued (ss_trace s) = [new_server_authorized]"
proof -
  have "runs_to (demo_start 0 ''random00'')
     (has_session 0 (\<lambda>s. ss_outbound s = [new_server_authorized] \<and> dequeued (ss_trace s) = []))"
    by code_simp
  then obtain w where w: "reachable w"
    "has_session 0 (\<lambda>s. ss_outbound s = [new_server_authorized] \<and> dequeued (ss_trace s) = []) w"
    by (rule runs_toE)
  then obtain s where s: "w_heap w 0 = Some s" "ss_outbound s = [new_server_authorized]"
    "dequeued (ss_trace s) = []"
    by (auto elim: has_sessionE)
  have "enqueued (ss_trace s) = [new_server_authorized]"
    using outbound_fifo [OF w(1) s(1)] s(2,3) by simp
  then show ?thesis using s(1) by blast
qed

text \<open>Progress never goes back, so the first end reason stays.\<close>

lemma next_stage_progress: "close_progress (next_stage t st a) = Suc (stage_index st)"
  by (cases st) simp_all

lemma next_stage_args: "once_args (next_stage t st a) = Some a"
  by (cases st) simp_all

lemma delta_monotone:
  assumes "session_delta c now s s'" and "close_inv c s"
  shows "close_progress (ss_once s) \<le> close_progress (ss_once s') \<and>
    (once_args (ss_once s) \<noteq> None \<longrightarrow> once_args (ss_once s') = once_args (ss_once s)) \<and>
    (ss_end_reason s \<noteq> None \<longrightarrow> ss_end_reason s' = ss_end_reason s)"
  using assms(1)
proof cases
  case (d_stage t st a)
  have "close_inv c s'" using stage_step_keeps [OF assms(2) d_stage(2)] d_stage(1) by simp
  then show ?thesis
    using assms(2) d_stage
    by (auto simp: close_inv_def next_stage_progress next_stage_args split: if_splits)
qed (auto simp: touch_def world_simps)

text \<open>
  The state of a session only moves forward. Once an end reason is recorded, no later
  step of any goroutine changes it, the closed channel is never reopened, and a session that is
  closing or closed never becomes active again.
\<close>

theorem end_reason_stable:
  assumes "reachable w" and "exec_action a w = Some w'" and "w_heap w n = Some s"
  shows "\<exists>s'. w_heap w' n = Some s' \<and>
    (ss_end_reason s \<noteq> None \<longrightarrow> ss_end_reason s' = ss_end_reason s) \<and>
    (ss_closed s \<longrightarrow> ss_closed s') \<and> ss_state s \<le> ss_state s'"
proof -
  obtain s' where s': "w_heap w' n = Some s'" "session_delta (w_cfg w) (w_now w) s s'"
    using base_inv_step [OF base.inv_reachable [OF assms(1)] assms(2)] assms(3)
    by (auto simp: deltas_def)
  have "reachable w'" using assms(1) system_action [OF assms(2)] by (rule reachable_step)
  then have inv': "close_inv (w_cfg w) s'"
    using closing.session_inv [OF _ s'(1)] exec_action_cfg [OF assms(2)] by metis
  have inv: "close_inv (w_cfg w) s" by (rule closing.session_inv [OF assms(1,3)])
  have "close_progress (ss_once s) \<le> close_progress (ss_once s')"
    and "ss_end_reason s \<noteq> None \<longrightarrow> ss_end_reason s' = ss_end_reason s"
    using delta_monotone [OF s'(2) inv] by auto
  then show ?thesis
    using s'(1) inv inv' by (auto simp: close_inv_def state_at_def less_eq_browser_state_def split: if_splits)
qed

text \<open>The step after the demonstration's close: time passes.\<close>

theorem end_reason_stable_witness:
  "\<exists>(w :: world) (w' :: world) s s'. w_heap w 0 = Some s \<and> ss_state s = BrowserClosed \<and> w_heap w' 0 = Some s'
     \<and> ss_state s' = BrowserClosed \<and> ss_end_reason s' = Some ClientClosed"
proof -
  obtain w where w: "reachable w" "has_session 0 (\<lambda>s. ss_once s = OnceDone (CloseArgs ClientClosed 1000 ''bye'')
        \<and> ss_state s = BrowserClosed \<and> ss_end_reason s = Some ClientClosed) w"
    using demo_closed by (rule runs_toE)
  then obtain s where s: "w_heap w 0 = Some s" "ss_state s = BrowserClosed" "ss_end_reason s = Some ClientClosed"
    by (auto elim: has_sessionE)
  have "exec_action (Advance 1) w = Some (w\<lparr>w_now := w_now w + 1\<rparr>)" by simp
  from end_reason_stable [OF w(1) this s(1)] obtain s' where
    "w_heap (w\<lparr>w_now := w_now w + 1\<rparr>) 0 = Some s'" "ss_state s' = BrowserClosed"
    "ss_end_reason s' = Some ClientClosed"
    using s(2,3) by (auto simp: browser_closed_top)
  then show ?thesis using s(1,2) by blast
qed

section \<open>The life of a session\<close>

text \<open>
  The most abstract view of a session: it lives, it is ending for a reason, it has ended for that
  reason. \<open>lifecycle_of\<close> reads it off what \<^verbatim>\<open>Snapshot\<close> shows, the state and the end reason; a
  combination that means nothing is \<open>None\<close>.
\<close>

datatype lifecycle = Alive | Ending end_reason | Ended end_reason

inductive lifecycle_step :: "lifecycle \<Rightarrow> lifecycle \<Rightarrow> bool" where
  stays: "lifecycle_step l l"
| ends: "lifecycle_step Alive (Ending r)"
| finishes: "lifecycle_step (Ending r) (Ended r)"

inductive_simps lifecycle_step_simps:
  "lifecycle_step Alive l" "lifecycle_step (Ending r) l" "lifecycle_step (Ended r) l"

fun lifecycle_of :: "snapshot \<Rightarrow> lifecycle option" where
  "lifecycle_of sn =
     (case (sn_state sn, sn_end_reason sn) of
        (BrowserActive, None) \<Rightarrow> Some Alive
      | (BrowserClosing, Some r) \<Rightarrow> Some (Ending r)
      | (BrowserClosed, Some r) \<Rightarrow> Some (Ended r)
      | _ \<Rightarrow> None)"

definition phase :: "nat \<Rightarrow> end_reason option \<Rightarrow> lifecycle" where
  "phase k r = (if k = 0 then Alive else if k < 6 then Ending (the r) else Ended (the r))"

lemma close_inv_reason: "close_inv c s \<Longrightarrow> ss_end_reason s = None \<longleftrightarrow> close_progress (ss_once s) = 0"
  by (cases "ss_once s") (auto simp: close_inv_def split: if_splits)

lemma lifecycle_phase:
  "close_inv c s \<Longrightarrow>
     lifecycle_of (session_snapshot s) = Some (phase (close_progress (ss_once s)) (ss_end_reason s))"
  using close_inv_reason [of c s]
  by (cases "ss_end_reason s") (auto simp: close_inv_def session_snapshot_def phase_def state_at_def)

lemma delta_progress:
  "session_delta c now s s' \<Longrightarrow> close_progress (ss_once s') \<le> Suc (close_progress (ss_once s))"
  by (erule session_delta.cases) (auto simp: touch_def world_simps next_stage_progress)

lemma phase_step:
  assumes "k \<le> k'" and "k' \<le> Suc k" and "r \<noteq> None \<longrightarrow> r' = r" and "r = None \<longleftrightarrow> k = 0"
  shows "lifecycle_step (phase k r) (phase k' r')"
  using assms by (cases "k = k'") (auto simp: phase_def lifecycle_step_simps)

text \<open>
  Property C18: a session is a three-state machine to everyone who looks at it. In every reachable
  state its snapshot shows a meaningful combination of state and end reason, and every step of
  every goroutine leaves it, starts an end for some reason, or finishes the end for that same
  reason: a session that has ended never ends again and never for another reason.
\<close>

theorem lifecycle_refinement:
  assumes "reachable w" and "exec_action a w = Some w'" and "w_heap w n = Some s"
  shows "\<exists>s' l l'. w_heap w' n = Some s' \<and> lifecycle_of (session_snapshot s) = Some l
    \<and> lifecycle_of (session_snapshot s') = Some l' \<and> lifecycle_step l l'"
proof -
  obtain s' where s': "w_heap w' n = Some s'" "session_delta (w_cfg w) (w_now w) s s'"
    using base_inv_step [OF base.inv_reachable [OF assms(1)] assms(2)] assms(3)
    by (auto simp: deltas_def)
  have inv: "close_inv (w_cfg w) s" by (rule closing.session_inv [OF assms(1,3)])
  then have inv': "close_inv (w_cfg w) s'" by (rule close_inv_delta [OF s'(2)])
  have "lifecycle_step (phase (close_progress (ss_once s)) (ss_end_reason s))
      (phase (close_progress (ss_once s')) (ss_end_reason s'))"
    using delta_monotone [OF s'(2) inv] delta_progress [OF s'(2)] close_inv_reason [OF inv]
    by (intro phase_step) auto
  then show ?thesis using s'(1) lifecycle_phase [OF inv] lifecycle_phase [OF inv'] by blast
qed

text \<open>After the demonstration's close time passes: the session stays ended.\<close>

theorem lifecycle_refinement_witness:
  "\<exists>(w :: world) s s' (w' :: world). w_heap w 0 = Some s \<and> w_heap w' 0 = Some s'
     \<and> lifecycle_of (session_snapshot s) = Some (Ended ClientClosed)
     \<and> lifecycle_of (session_snapshot s') = Some (Ended ClientClosed)"
proof -
  obtain w where w: "reachable w" "has_session 0 (\<lambda>s. ss_once s = OnceDone (CloseArgs ClientClosed 1000 ''bye'')
        \<and> ss_state s = BrowserClosed \<and> ss_end_reason s = Some ClientClosed) w"
    using demo_closed by (rule runs_toE)
  then obtain s where s: "w_heap w 0 = Some s" "ss_state s = BrowserClosed" "ss_end_reason s = Some ClientClosed"
    by (auto elim: has_sessionE)
  then have l: "lifecycle_of (session_snapshot s) = Some (Ended ClientClosed)"
    by (simp add: session_snapshot_def)
  have "exec_action (Advance 1) w = Some (w\<lparr>w_now := w_now w + 1\<rparr>)" by simp
  from lifecycle_refinement [OF w(1) this s(1)] obtain s' where
    "w_heap (w\<lparr>w_now := w_now w + 1\<rparr>) 0 = Some s'"
    "lifecycle_of (session_snapshot s') = Some (Ended ClientClosed)"
    using l by (auto simp: lifecycle_step_simps simp del: lifecycle_of.simps)
  then show ?thesis using s(1) l by blast
qed

end
