(* ===== verification/Session_Registry.thy ===== *)
theory Session_Registry
  imports Session_Closing
begin

text \<open>
  The registry under every interleaving: one joint invariant of the map, the sessions and the
  program counters, kept by each step. It gives the session limit, that the map only holds
  sessions that have not been deregistered, and the lemmas the shutdown and progress properties
  rest on.
\<close>

section \<open>Which sessions a thread may touch\<close>

definition registered_in :: "world \<Rightarrow> nat \<Rightarrow> bool" where
  "registered_in w n \<longleftrightarrow> (\<exists>s. w_heap w n = Some s \<and> Registered \<in> set (ss_trace s))"

definition pre_insert :: "pc \<Rightarrow> bool" where
  "pre_insert p =
     (case p of S_Configure q \<Rightarrow> True | S_ConfigureFailed e \<Rightarrow> True | S_Insert q \<Rightarrow> True
      | S_Reject q \<Rightarrow> True | _ \<Rightarrow> False)"

definition post_insert :: "pc \<Rightarrow> bool" where
  "post_insert p =
     (case p of S_Announce q \<Rightarrow> True | S_Initial ms \<Rightarrow> True | S_AbortClose e \<Rightarrow> True
      | S_AbortDelete e \<Rightarrow> True | S_Go \<Rightarrow> True | EnqCheck m a b c \<Rightarrow> True | EnqSend m a b \<Rightarrow> True
      | Closing n a k \<Rightarrow> True | _ \<Rightarrow> False)"

fun pc_targets :: "pc \<Rightarrow> nat set" where
  "pc_targets (A_Next r finished ns) = set finished \<union> set ns"
| "pc_targets (A_Returned finished) = set finished"
| "pc_targets (Closing n a k) = insert n (pc_targets k)"
| "pc_targets _ = {}"

text \<open>The sessions a thread at a program counter holds on to: all of them are registered.\<close>

fun needs :: "tid \<Rightarrow> pc \<Rightarrow> nat set" where
  "needs (Starter n) p = (if post_insert p then {n} else {})"
| "needs (Closer k) p = pc_targets p"
| "needs t p = (if p = Stopped then {} else {tid_session t})"

lemma stopped_no_step: "thread_step t inp w = Some w' \<Longrightarrow> w_threads w t \<noteq> Stopped"
  by (erule thread_step_cases)
    (auto elim: starter_step_cases runner_step_cases reader_step_cases output_step_cases
      keeper_step_cases writer_step_cases closer_step_cases)

lemma close_step_local:
  "close_step t n args k w = Some w' \<Longrightarrow> m \<noteq> n \<Longrightarrow> w_heap w' m = w_heap w m"
  by (erule close_step_cases) (simp_all add: world_simps)

lemma enqueue_local:
  "enqueue_check t n e ok closed full w = Some w' \<Longrightarrow> w_heap w' = w_heap w"
  "enqueue_send t n e ok full w = Some w' \<Longrightarrow> m \<noteq> n \<Longrightarrow> w_heap w' m = w_heap w m"
  "send_result t n r w = Some w' \<Longrightarrow> m \<noteq> n \<Longrightarrow> w_heap w' m = w_heap w m"
  by (auto simp: world_simps elim!: enqueue_check_cases enqueue_send_cases send_result_cases)

lemma own_steps_local:
  "starter_step n inp p so w = Some w' \<Longrightarrow> m \<noteq> n \<Longrightarrow> w_heap w' m = w_heap w m"
  "runner_step n inp p s w = Some w' \<Longrightarrow> m \<noteq> n \<Longrightarrow> w_heap w' m = w_heap w m"
  "reader_step n inp p s w = Some w' \<Longrightarrow> m \<noteq> n \<Longrightarrow> w_heap w' m = w_heap w m"
  "output_step n inp p s w = Some w' \<Longrightarrow> m \<noteq> n \<Longrightarrow> w_heap w' m = w_heap w m"
  "keeper_step n inp p s w = Some w' \<Longrightarrow> m \<noteq> n \<Longrightarrow> w_heap w' m = w_heap w m"
  "writer_step n inp p s w = Some w' \<Longrightarrow> m \<noteq> n \<Longrightarrow> w_heap w' m = w_heap w m"
  "closer_step k inp p w = Some w' \<Longrightarrow> w_heap w' = w_heap w"
  by (auto simp: world_simps start_enter_def start_insert_def
      elim!: starter_step_cases runner_step_cases reader_step_cases output_step_cases
        keeper_step_cases writer_step_cases closer_step_cases)

lemma typed_at: "typed w \<Longrightarrow> thread_pc t (w_threads w t)"
  by (simp add: typed_def)

lemma closing_target:
  "thread_pc t (Closing n a k) \<Longrightarrow> n \<in> needs t (Closing n a k)"
  by (cases t) (auto simp: thread_pc_defs post_insert_def split: pc.splits)

text \<open>A step changes only sessions its thread needs, or the one it starts.\<close>

lemma step_local:
  assumes "thread_step t inp w = Some w'" and "typed w" and "m \<notin> needs t (w_threads w t)"
    and "t \<noteq> Starter m"
  shows "w_heap w' m = w_heap w m"
proof -
  have ns: "w_threads w t \<noteq> Stopped" using stopped_no_step [OF assms(1)] .
  have own: "m \<noteq> tid_session t" if "\<forall>k. t \<noteq> Closer k"
    using assms(3,4) ns that by (cases t) (auto split: if_splits)
  have ty: "thread_pc t (w_threads w t)" using typed_at [OF assms(2)] .
  from assms(1) show ?thesis
  proof (cases rule: thread_step_cases)
    case (closing n args k)
    then have "m \<noteq> n" using closing_target ty assms(3) by metis
    then show ?thesis using close_step_local closing(2) by blast
  next
    case (check e ok closed full)
    then show ?thesis using enqueue_local(1) by metis
  next
    case (enqueue e ok full)
    have "\<forall>k. t \<noteq> Closer k" using ty enqueue(1) by (auto simp: closer_pc_def)
    then show ?thesis using own enqueue_local(2) [OF enqueue(2)] by blast
  next
    case (result r)
    have "\<forall>k. t \<noteq> Closer k" using ty result(1) by (auto simp: closer_pc_def)
    then show ?thesis using own enqueue_local(3) [OF result(2)] by blast
  next
    case (starter n) then show ?thesis using own own_steps_local(1) by auto
  next
    case (runner n s) then show ?thesis using own own_steps_local(2) by auto
  next
    case (reader n s) then show ?thesis using own own_steps_local(3) by auto
  next
    case (out n s) then show ?thesis using own own_steps_local(4) by auto
  next
    case (keeper n s) then show ?thesis using own own_steps_local(5) by auto
  next
    case (writer n s) then show ?thesis using own own_steps_local(6) by auto
  next
    case (closer k) then show ?thesis using own_steps_local(7) by metis
  qed
qed

section \<open>What a step does to the registry and to the once\<close>

lemma registry_step:
  assumes "thread_step t inp w = Some w'"
  obtains
    (same) "w_registry w' = w_registry w"
  | (delete) n s where "w_heap w n = Some s" "w_registry w' = reg_delete (si_id (ss_info s)) (w_registry w)"
      "(\<exists>a. ss_once s = OnceRunning t C_Dereg a \<and> (\<exists>args k. w_threads w t = Closing n args k))
       \<or> (\<exists>e. w_returns w' n = Some (Err e))"
  | (put) n q s where "t = Starter n" "w_threads w t = S_Insert q" "w_heap w n = Some s"
      "\<not> registry_full w" "w_registry w' = reg_put (si_id (ss_info s)) n (w_registry w)"
      "w_heap w' = (w_heap w)(n \<mapsto> emit Registered s)"
      "w_threads w' = (w_threads w)(Starter n := S_Announce q)"
  using assms
proof (cases rule: thread_step_cases)
  case (closing n args k)
  from closing(2) show ?thesis
  proof (cases rule: close_step_cases)
    case (stage s st a)
    then show ?thesis using same delete [of n s] closing(1) by (cases "st = C_Dereg") auto
  qed (use same in \<open>simp_all add: world_simps\<close>)
next
  case (starter n)
  from starter(2) show ?thesis
  proof (cases rule: starter_step_cases)
    case (insert q s)
    then show ?thesis
      using same put starter(1)
      by (cases "registry_full w") (simp_all add: start_insert_def world_simps)
  next
    case (abort_delete e s)
    then show ?thesis using delete [of n s] by (auto simp: world_simps)
  next
    case (enter q)
    then show ?thesis using same by (auto simp: start_enter_def world_simps split: if_splits)
  qed (use same in \<open>simp_all add: world_simps\<close>)
qed (use same in \<open>auto simp: world_simps elim!: enqueue_check_cases enqueue_send_cases
      send_result_cases runner_step_cases reader_step_cases output_step_cases keeper_step_cases
      writer_step_cases closer_step_cases\<close>)

lemma once_step:
  assumes "thread_step t inp w = Some w'" and "w_heap w n = Some s" and "w_heap w' n = Some s'"
    and "\<And>m. starting (w_threads w (Starter m)) \<Longrightarrow> w_heap w m = None"
  shows "ss_once s' = ss_once s
    \<or> (\<exists>args k. w_threads w t = Closing n args k \<and> close_step t n args k w = Some w')"
  using assms(1)
proof (cases rule: thread_step_cases)
  case (closing m args k)
  show ?thesis
  proof (cases "m = n")
    case False
    then show ?thesis using close_step_local [OF closing(2), of n] assms(2,3) by simp
  qed (use closing in blast)
next
  case (starter m)
  show ?thesis
  proof (cases "m = n")
    case True
    have "\<not> starting (w_threads w (Starter n))" using assms(2) assms(4) [of n] by auto
    then show ?thesis
      using starter True assms(2,3)
      by (cases rule: starter_step_cases [OF starter(2)])
        (auto simp: world_simps start_insert_def starting_def split: if_splits)
  next
    case False
    then show ?thesis using own_steps_local(1) [OF starter(2), of n] assms(2,3) by simp
  qed
qed (use assms(2,3) in \<open>auto simp: world_simps touch_def elim!: enqueue_check_cases enqueue_send_cases
      send_result_cases runner_step_cases reader_step_cases output_step_cases keeper_step_cases
      writer_step_cases closer_step_cases split: if_splits\<close>)

lemma delta_keeps:
  assumes "session_delta c now s s'"
  shows "ss_info s' = ss_info s \<and> set (ss_trace s) \<subseteq> set (ss_trace s')"
  using assms
proof cases
  case (d_stage t st a)
  then show ?thesis by (cases a; cases st) (auto simp: emit_def)
qed (auto simp: touch_def emit_def)

section \<open>The joint invariant\<close>

definition reg_entry_ok :: "world \<Rightarrow> string \<Rightarrow> nat \<Rightarrow> bool" where
  "reg_entry_ok w k n \<longleftrightarrow> (\<exists>s. w_heap w n = Some s \<and> si_id (ss_info s) = k
     \<and> Registered \<in> set (ss_trace s) \<and> close_progress (ss_once s) < 5)"

definition reg_inv :: "world \<Rightarrow> bool" where
  "reg_inv w \<longleftrightarrow> base_inv w
     \<and> (\<forall>t. \<forall>m \<in> needs t (w_threads w t). registered_in w m)
     \<and> (\<forall>n. pre_insert (w_threads w (Starter n)) \<longrightarrow>
          (\<exists>s. w_heap w n = Some s \<and> Registered \<notin> set (ss_trace s)))
     \<and> (\<forall>n s. w_heap w n = Some s \<and> ss_once s \<noteq> OnceIdle \<longrightarrow> Registered \<in> set (ss_trace s))
     \<and> (\<forall>(k, n) \<in> set (w_registry w). reg_entry_ok w k n)
     \<and> int (length (w_registry w)) \<le> rc_max_concurrent (w_cfg w)
     \<and> distinct (map fst (w_registry w))"

lemma reg_invD:
  assumes "reg_inv w"
  shows "base_inv w" and "typed w"
    and "starting (w_threads w (Starter n)) \<Longrightarrow> w_heap w n = None"
    and "m \<in> needs t (w_threads w t) \<Longrightarrow> registered_in w m"
    and "pre_insert (w_threads w (Starter n)) \<Longrightarrow>
      \<exists>s. w_heap w n = Some s \<and> Registered \<notin> set (ss_trace s)"
    and "w_heap w n = Some s \<Longrightarrow> ss_once s \<noteq> OnceIdle \<Longrightarrow> Registered \<in> set (ss_trace s)"
    and "(k, n) \<in> set (w_registry w) \<Longrightarrow> reg_entry_ok w k n"
    and "int (length (w_registry w)) \<le> rc_max_concurrent (w_cfg w)"
    and "distinct (map fst (w_registry w))"
  using assms by (auto simp: reg_inv_def base_inv_def)

lemma registered_mono: "registered_in w n \<Longrightarrow> deltas w w' \<Longrightarrow> registered_in w' n"
  unfolding registered_in_def deltas_def by (meson delta_keeps subsetD)

text \<open>What a thread needs after its step, it needed before, or the step registered it.\<close>

lemma needs_own_step:
  assumes inv: "reg_inv w" and step: "thread_step t inp w = Some w'"
    and m: "m \<in> needs t (w_threads w' t)"
  shows "registered_in w m \<or> registered_in w' m"
proof (cases t)
  case (Starter n)
  then have mn: "m = n" and post: "post_insert (w_threads w' t)" using m by (auto split: if_splits)
  show ?thesis
  proof (cases "post_insert (w_threads w t)")
    case True
    then show ?thesis using reg_invD(4) [OF inv, of m t] Starter mn by simp
  next
    case False
    from step show ?thesis
    proof (cases rule: thread_step_cases)
      case (starter n')
      from starter(2) show ?thesis
      proof (cases rule: starter_step_cases)
        case (insert q s)
        then show ?thesis
          using post Starter mn starter(1)
          by (auto simp: start_insert_def registered_in_def world_simps post_insert_def split: if_splits)
      qed (use False post Starter starter(1) in
          \<open>auto simp: world_simps post_insert_def start_enter_def split: if_splits list.splits\<close>)
    next
      case (result r)
      then show ?thesis
        using typed_at [OF reg_invD(2) [OF inv], of t] Starter by (simp add: starter_pc_def)
    qed (use False Starter in \<open>auto simp: post_insert_def\<close>)
  qed
next
  case (Closer k)
  have ty: "closer_pc (w_threads w t)" using typed_at [OF reg_invD(2) [OF inv], of t] Closer by simp
  have old: "x \<in> pc_targets (w_threads w t) \<Longrightarrow> registered_in w x" for x
    using reg_invD(4) [OF inv, of x t] Closer by simp
  from step show ?thesis
  proof (cases rule: thread_step_cases)
    case (closing n args k')
    then have "w_threads w' t = w_threads w t \<or> w_threads w' t = k'"
      using close_step_threads [OF closing(2)] by auto
    then show ?thesis using m old closing(1) Closer by auto
  next
    case (closer k')
    from closer(2) show ?thesis
    proof (cases rule: closer_step_cases)
      case (collect r ns)
      then have "m \<in> set (map snd (w_registry w))"
        using m Closer closer(1) by (simp add: world_simps)
      then obtain key where "(key, m) \<in> set (w_registry w)" by auto
      then show ?thesis
        using reg_invD(7) [OF inv] by (fastforce simp: reg_entry_ok_def registered_in_def)
    qed (use m old Closer closer(1) in \<open>auto simp: world_simps\<close>)
  qed (use ty Closer in \<open>auto simp: closer_pc_def\<close>)
qed (use m reg_invD(4) [OF inv, of m t] stopped_no_step [OF step] in \<open>auto split: if_splits\<close>)

lemma needs_step:
  assumes inv: "reg_inv w" and step: "thread_step t inp w = Some w'" and d: "deltas w w'"
    and m: "m \<in> needs u (w_threads w' u)"
  shows "registered_in w' m"
proof (cases "u = t")
  case True
  then show ?thesis using needs_own_step [OF inv step] m registered_mono [OF _ d] by blast
next
  case False
  note old = reg_invD(4) [OF inv]
  from thread_step_frame [OF step False] show ?thesis
  proof (elim disjE exE conjE)
    assume "w_threads w' u = w_threads w u"
    then show ?thesis using old m registered_mono [OF _ d] by metis
  next
    fix n assume "t = Starter n" "w_threads w t = S_Go" "u = Runner n" "w_threads w' u = R_Spawn"
    then have "registered_in w m" using old [of n t] m by (simp add: post_insert_def)
    then show ?thesis using registered_mono [OF _ d] by blast
  next
    fix n assume r: "t = Runner n" "w_threads w t = R_Spawn"
      "(u, w_threads w' u) \<in> {(Writer n, W_Select), (Output n, O_Read), (Reader n, L_Read), (Keeper n, K_Start)}"
    then have "m = n" using m by auto
    moreover have "registered_in w n" using old [of n t] r by simp
    ultimately show ?thesis using registered_mono [OF _ d] by blast
  qed
qed

lemma pre_insert_step:
  assumes inv: "reg_inv w" and step: "thread_step t inp w = Some w'"
    and pre: "pre_insert (w_threads w' (Starter n))"
  shows "\<exists>s. w_heap w' n = Some s \<and> Registered \<notin> set (ss_trace s)"
proof (cases "t = Starter n")
  case False
  then have pc: "w_threads w' (Starter n) = w_threads w (Starter n)"
    using thread_step_frame_starter [OF step] by auto
  then obtain s where s: "w_heap w n = Some s" "Registered \<notin> set (ss_trace s)"
    using reg_invD(5) [OF inv] pre by auto
  then have "\<not> registered_in w n" by (simp add: registered_in_def)
  then have "n \<notin> needs t (w_threads w t)" using reg_invD(4) [OF inv] by blast
  then show ?thesis using step_local [OF step reg_invD(2) [OF inv]] False s by metis
next
  case True
  have ty: "starter_pc n (w_threads w t)" using typed_at [OF reg_invD(2) [OF inv], of t] True by simp
  from step show ?thesis
  proof (cases rule: thread_step_cases)
    case (starter n')
    have old: "pre_insert (w_threads w t) \<Longrightarrow> \<exists>s. w_heap w n = Some s \<and> Registered \<notin> set (ss_trace s)"
      using reg_invD(5) [OF inv] True by simp
    from starter(2) show ?thesis
      by (cases rule: starter_step_cases)
        (use old pre True starter(1) in
          \<open>auto simp: world_simps pre_insert_def start_enter_def start_insert_def new_session_def
             split: if_splits\<close>)
  next
    case (closing m args k)
    then show ?thesis
      using close_step_threads [OF closing(2)] pre True ty by (auto simp: pre_insert_def starter_pc_def)
  next
    case (check m ok closed full)
    then show ?thesis
      using enqueue_check_threads [OF check(2)] pre True ty by (auto simp: pre_insert_def starter_pc_def)
  next
    case (enqueue m ok full)
    then show ?thesis
      using enqueue_send_threads [OF enqueue(2)] pre True ty
      by (auto simp: pre_insert_def starter_pc_def is_initial_iff)
  qed (use ty True in \<open>auto simp: starter_pc_def\<close>)
qed

text \<open>A step that closes does so for a session its thread needs.\<close>

lemma once_changes_registered:
  assumes inv: "reg_inv w" and step: "thread_step t inp w = Some w'"
    and s: "w_heap w n = Some s" "w_heap w' n = Some s'" "ss_once s' \<noteq> ss_once s"
  shows "registered_in w n"
proof -
  obtain args k where "w_threads w t = Closing n args k"
    using once_step [OF step s(1,2)] s(3) reg_invD(3) [OF inv] by blast
  then show ?thesis
    using closing_target [of t n args k] typed_at [OF reg_invD(2) [OF inv], of t]
      reg_invD(4) [OF inv, of n t] by simp
qed

lemma once_registered_step:
  assumes inv: "reg_inv w" and step: "thread_step t inp w = Some w'" and d: "deltas w w'"
    and b: "exec_action (Thread t inp) w = Some w'"
    and s': "w_heap w' n = Some s'" "ss_once s' \<noteq> OnceIdle"
  shows "Registered \<in> set (ss_trace s')"
proof (cases "w_heap w n")
  case None
  then show ?thesis
    using created_session [OF reg_invD(1) [OF inv] b None s'(1)] s'(2) by (auto simp: new_session_def)
next
  case (Some s)
  have "registered_in w n"
  proof (cases "ss_once s' = ss_once s")
    case True
    then show ?thesis using reg_invD(6) [OF inv Some] s'(2) Some by (auto simp: registered_in_def)
  next
    case False
    then show ?thesis using once_changes_registered [OF inv step Some s'(1)] by blast
  qed
  then have "registered_in w' n" using registered_mono [OF _ d] by blast
  then show ?thesis using s'(1) by (simp add: registered_in_def)
qed

text \<open>An entry that stays in the map stays good: its own closing takes it out.\<close>

lemma entry_step:
  assumes inv: "reg_inv w" and step: "thread_step t inp w = Some w'" and d: "deltas w w'"
    and e: "(k, n) \<in> set (w_registry w)" "(k, n) \<in> set (w_registry w')"
  shows "reg_entry_ok w' k n"
proof -
  obtain s where s: "w_heap w n = Some s" "si_id (ss_info s) = k" "Registered \<in> set (ss_trace s)"
    "close_progress (ss_once s) < 5"
    using reg_invD(7) [OF inv e(1)] by (auto simp: reg_entry_ok_def)
  obtain s' where s': "w_heap w' n = Some s'" "session_delta (w_cfg w) (w_now w) s s'"
    using d s(1) by (auto simp: deltas_def)
  have "close_progress (ss_once s') < 5"
  proof (cases "ss_once s' = ss_once s")
    case False
    then obtain args k' where "close_step t n args k' w = Some w'"
      using once_step [OF step s(1) s'(1)] reg_invD(3) [OF inv] by blast
    then show ?thesis
    proof (cases rule: close_step_cases)
      case (stage s0 st a)
      then have "st \<noteq> C_Dereg"
        using e(2) s(1,2) by (auto simp: reg_delete_def)
      then show ?thesis using stage s(1,4) s'(1) by (cases st) auto
    qed (use s s' in \<open>auto simp: world_simps\<close>)
  qed (use s in simp)
  then show ?thesis using delta_keeps [OF s'(2)] s s'(1) by (auto simp: reg_entry_ok_def)
qed

lemma registry_ok_step:
  assumes inv: "reg_inv w" and step: "thread_step t inp w = Some w'" and d: "deltas w w'"
  shows "(\<forall>(k, n) \<in> set (w_registry w'). reg_entry_ok w' k n)
    \<and> int (length (w_registry w')) \<le> rc_max_concurrent (w_cfg w')
    \<and> distinct (map fst (w_registry w'))"
proof -
  note entry = entry_step [OF inv step d] and max = reg_invD(8) [OF inv] and keys = reg_invD(9) [OF inv]
  have cfg: "w_cfg w' = w_cfg w" using thread_step_cfg [OF step] .
  from step show ?thesis
  proof (cases rule: registry_step)
    case same
    then show ?thesis using entry max keys cfg by auto
  next
    case (delete n s)
    let ?k = "si_id (ss_info s)"
    have "length (w_registry w') \<le> length (w_registry w)"
      using delete by (simp add: reg_delete_def)
    then have "int (length (w_registry w')) \<le> rc_max_concurrent (w_cfg w')"
      unfolding cfg using max by linarith
    moreover have "distinct (map fst (reg_delete ?k (w_registry w)))"
      using keys by (simp add: reg_delete_def distinct_map_filter)
    ultimately show ?thesis
      using delete entry by (auto simp: reg_delete_def)
  next
    case (put n q s)
    have "Registered \<notin> set (ss_trace s)"
      using reg_invD(5) [OF inv, of n] put(1,2,3) by (auto simp: pre_insert_def)
    then have "ss_once s = OnceIdle" using reg_invD(6) [OF inv put(3)] by blast
    then have idle: "close_progress (ss_once s) = 0" by simp
    have new: "reg_entry_ok w' (si_id (ss_info s)) n"
      using put(6) idle by (simp add: reg_entry_ok_def world_simps)
    have "length (reg_put (si_id (ss_info s)) n (w_registry w)) \<le> Suc (length (w_registry w))"
      by (simp add: reg_put_def)
    moreover have "0 < rc_max_concurrent (w_cfg w)"
      using reg_invD(1) [OF inv]
      by (auto simp: base_inv_def new_registry_config_def override_def default_max_concurrent_def
          split: option.split)
    ultimately have "int (length (w_registry w')) \<le> rc_max_concurrent (w_cfg w')"
      using put(4,5) cfg by (simp add: registry_full_def at_capacity_def registry_count_def)
    moreover have "distinct (map fst (w_registry w'))"
      using keys put(5) by (auto simp: reg_put_def distinct_map_filter)
    ultimately show ?thesis using put(5) entry new by (auto simp: reg_put_def)
  qed
qed

lemma reg_inv_thread: "reg_inv w \<Longrightarrow> thread_step t inp w = Some w' \<Longrightarrow> reg_inv w'"
proof -
  assume inv: "reg_inv w" and step: "thread_step t inp w = Some w'"
  have a: "exec_action (Thread t inp) w = Some w'" using step by simp
  have b: "base_inv w'" and d: "deltas w w'"
    using base_inv_step [OF reg_invD(1) [OF inv] a] by auto
  show "reg_inv w'"
    unfolding reg_inv_def
    using b needs_step [OF inv step d] pre_insert_step [OF inv step]
      once_registered_step [OF inv step d a] registry_ok_step [OF inv step d]
    by blast
qed

lemma reg_inv_upd:
  assumes "reg_inv w" and "base_inv w'" and "w_heap w' = w_heap w" "w_registry w' = w_registry w"
    "w_cfg w' = w_cfg w"
    and "\<And>u. w_threads w' u = w_threads w u \<or> needs u (w_threads w' u) = {} \<and> \<not> pre_insert (w_threads w' u)"
  shows "reg_inv w'"
proof -
  have r: "registered_in w' = registered_in w" and e: "reg_entry_ok w' = reg_entry_ok w"
    using assms(3) by (simp_all add: registered_in_def reg_entry_ok_def fun_eq_iff)
  have "registered_in w m" if "m \<in> needs u (w_threads w' u)" for u m
    using assms(6) [of u] that reg_invD(4) [OF assms(1), of m u] by auto
  moreover have "\<exists>s. w_heap w n = Some s \<and> Registered \<notin> set (ss_trace s)"
    if "pre_insert (w_threads w' (Starter n))" for n
    using assms(6) [of "Starter n"] that reg_invD(5) [OF assms(1), of n] by auto
  moreover note reg_invD(6-9) [OF assms(1)]
  ultimately show ?thesis using assms(2-5) r e unfolding reg_inv_def by auto
qed

lemma reg_inv_step: "reg_inv w \<Longrightarrow> exec_action a w = Some w' \<Longrightarrow> reg_inv w'"
proof -
  assume inv: "reg_inv w" and a: "exec_action a w = Some w'"
  have b: "base_inv w'" using base_inv_step [OF reg_invD(1) [OF inv] a] by simp
  show "reg_inv w'"
  proof (cases a)
    case (Thread t inp)
    then show ?thesis using reg_inv_thread [OF inv] a by simp
  qed (use a b in \<open>auto simp: world_simps post_insert_def pre_insert_def split: if_splits
        intro!: reg_inv_upd [OF inv]\<close>)
qed

lemma reg_inv_initial: "system_initial w \<Longrightarrow> reg_inv w"
proof -
  assume i: "system_initial w"
  then obtain c now where w: "w = initial_world c now" by (auto simp: system_initial_def)
  have "needs t Stopped = {}" for t by (cases t) (simp_all add: post_insert_def)
  moreover have "0 < rc_max_concurrent (new_registry_config c)"
    by (simp add: new_registry_config_def override_def default_max_concurrent_def split: option.split)
  ultimately show ?thesis
    using base_inv_initial [OF i] w by (simp add: reg_inv_def initial_world_def pre_insert_def)
qed

interpretation reg: invariant_system system_initial system_step reg_inv
  by unfold_locales (auto simp: reg_inv_initial reg_inv_step elim: system_stepE)

section \<open>Open sessions are in the registry\<close>

definition aborted :: "world \<Rightarrow> nat \<Rightarrow> bool" where
  "aborted w n \<longleftrightarrow> (case w_returns w n of Some (Inl e) \<Rightarrow> True | _ \<Rightarrow> False)"

text \<open>Registered, not yet deregistered by its closing, and not given up by its \<^verbatim>\<open>Start\<close>.\<close>

definition open_session :: "world \<Rightarrow> nat \<Rightarrow> bool" where
  "open_session w n \<longleftrightarrow>
     (case w_heap w n of
        None \<Rightarrow> False
      | Some s \<Rightarrow> Registered \<in> set (ss_trace s) \<and> close_progress (ss_once s) < 5 \<and> \<not> aborted w n)"

definition session_id :: "world \<Rightarrow> nat \<Rightarrow> string" where
  "session_id w n = (case w_heap w n of None \<Rightarrow> [] | Some s \<Rightarrow> si_id (ss_info s))"

definition unique_ids :: "world \<Rightarrow> bool" where
  "unique_ids w \<longleftrightarrow> (\<forall>m n. w_heap w m \<noteq> None \<and> w_heap w n \<noteq> None \<and> session_id w m = session_id w n \<longrightarrow> m = n)"

definition open_inv :: "world \<Rightarrow> bool" where
  "open_inv w \<longleftrightarrow> reg_inv w \<and>
     (unique_ids w \<longrightarrow> (\<forall>n. open_session w n \<longrightarrow> (session_id w n, n) \<in> set (w_registry w)))"

lemma session_id_delta: "deltas w w' \<Longrightarrow> w_heap w n \<noteq> None \<Longrightarrow> session_id w' n = session_id w n \<and> w_heap w' n \<noteq> None"
  unfolding deltas_def session_id_def by (metis (no_types, lifting) delta_keeps not_None_eq option.simps(5))

lemma unique_ids_back: "unique_ids w' \<Longrightarrow> deltas w w' \<Longrightarrow> unique_ids w"
  unfolding unique_ids_def by (metis session_id_delta)

lemma returns_step:
  assumes "thread_step t inp w = Some w'" and "w_returns w n \<noteq> None"
    and "w_threads w (Starter n) = S_Returned"
  shows "w_returns w' n = w_returns w n"
  using assms(1)
proof (cases rule: thread_step_cases)
  case (closing m args k)
  then show ?thesis by (cases rule: close_step_cases [OF closing(2)]) (auto simp: world_simps)
next
  case (starter m)
  show ?thesis
  proof (cases "m = n")
    case True
    then have "starter_step n inp S_Returned (w_heap w n) w = Some w'"
      using starter assms(3) by simp
    then show ?thesis by (cases rule: starter_step_cases) auto
  next
    case False
    then show ?thesis
      by (cases rule: starter_step_cases [OF starter(2)])
        (auto simp: world_simps start_enter_def start_insert_def split: if_splits)
  qed
qed (auto simp: world_simps elim!: enqueue_check_cases enqueue_send_cases
      send_result_cases runner_step_cases reader_step_cases output_step_cases keeper_step_cases
      writer_step_cases closer_step_cases)

text \<open>A call has a result exactly when it has returned.\<close>

definition returned_inv :: "world \<Rightarrow> bool" where
  "returned_inv w \<longleftrightarrow> base_inv w \<and>
     (\<forall>n. w_returns w n \<noteq> None \<longleftrightarrow> w_threads w (Starter n) = S_Returned)"

lemma returns_own_step:
  assumes "thread_step t inp w = Some w'" and "typed w"
  shows "(w_returns w' n \<noteq> None \<longleftrightarrow> w_returns w n \<noteq> None \<or>
      t = Starter n \<and> w_threads w' (Starter n) = S_Returned)
    \<and> (t = Starter n \<longrightarrow> w_threads w (Starter n) \<noteq> S_Returned)"
  using assms(1)
proof (cases rule: thread_step_cases)
  case (closing m args k)
  have "starter_pc n (w_threads w t)" if "t = Starter n"
    using typed_at [OF assms(2), of t] that by simp
  then show ?thesis
    using closing close_step_threads [OF closing(2)]
    by (cases rule: close_step_cases [OF closing(2)]) (auto simp: world_simps starter_pc_def)
next
  case (check m ok closed full)
  have "starter_pc n (w_threads w t)" if "t = Starter n"
    using typed_at [OF assms(2), of t] that by simp
  then show ?thesis
    using check by (cases rule: enqueue_check_cases [OF check(2)]) (auto simp: world_simps starter_pc_def)
next
  case (enqueue m ok full)
  have "starter_pc n (w_threads w t)" if "t = Starter n"
    using typed_at [OF assms(2), of t] that by simp
  then show ?thesis
    using enqueue
    by (cases rule: enqueue_send_cases [OF enqueue(2)])
      (auto simp: world_simps starter_pc_def is_initial_iff)
next
  case (result r)
  have "starter_pc n (w_threads w t)" if "t = Starter n"
    using typed_at [OF assms(2), of t] that by simp
  then show ?thesis
    using result by (cases rule: send_result_cases [OF result(2)]) (auto simp: world_simps starter_pc_def)
next
  case (starter m)
  then show ?thesis
    by (cases rule: starter_step_cases [OF starter(2)])
      (auto simp: world_simps start_enter_def start_insert_def split: if_splits)
qed (auto simp: world_simps elim!: runner_step_cases reader_step_cases output_step_cases
      keeper_step_cases writer_step_cases closer_step_cases)

lemma returned_inv_step: "returned_inv w \<Longrightarrow> exec_action a w = Some w' \<Longrightarrow> returned_inv w'"
proof -
  assume inv: "returned_inv w" and a: "exec_action a w = Some w'"
  have b: "base_inv w'" using base_inv_step a inv by (auto simp: returned_inv_def)
  show "returned_inv w'"
  proof (cases a)
    case (Thread t inp)
    then have step: "thread_step t inp w = Some w'" using a by simp
    have "w_returns w' n \<noteq> None \<longleftrightarrow> w_threads w' (Starter n) = S_Returned" for n
      using returns_own_step [OF step, of n] thread_step_frame_starter [OF step, of n] inv
      by (auto simp: returned_inv_def base_inv_def)
    then show ?thesis using b by (simp add: returned_inv_def)
  next
    case (CallStart m q)
    then have w': "w' = goto (Starter m) (S_Enter q) w" "w_returns w m = None"
      using a by (simp_all split: if_splits)
    have "w_returns w' n \<noteq> None \<longleftrightarrow> w_threads w' (Starter n) = S_Returned" for n
      using inv w' by (cases "n = m") (simp_all add: returned_inv_def world_simps)
    then show ?thesis using b by (simp add: returned_inv_def)
  qed (use a b inv in \<open>auto simp: returned_inv_def world_simps split: if_splits\<close>)
qed

lemma returned_inv_initial: "system_initial w \<Longrightarrow> returned_inv w"
  using base_inv_initial [of w] by (auto simp: returned_inv_def system_initial_def initial_world_def)

interpretation returned: invariant_system system_initial system_step returned_inv
  by unfold_locales (auto simp: returned_inv_initial returned_inv_step elim: system_stepE)

text \<open>Only the insertion registers a session.\<close>

lemma registered_new:
  assumes "thread_step t inp w = Some w'" and "w_heap w n = Some s" and "w_heap w' n = Some s'"
    and "Registered \<notin> set (ss_trace s)" and "Registered \<in> set (ss_trace s')"
    and "\<And>m. starting (w_threads w (Starter m)) \<Longrightarrow> w_heap w m = None"
  shows "(si_id (ss_info s), n) \<in> set (w_registry w')"
  using assms(1)
proof (cases rule: thread_step_cases)
  case (closing m args k)
  have "Registered \<in> set (ss_trace (close_stage_session c now t st a s)) \<longleftrightarrow> Registered \<in> set (ss_trace s)"
    for c now st a
    by (cases a; cases st) (auto simp: emit_def end_announced_def)
  then show ?thesis
    using assms(2-5)
    by (cases rule: close_step_cases [OF closing(2)]) (auto simp: world_simps split: if_splits)
next
  case (starter m)
  have "\<not> starting (w_threads w (Starter n))" using assms(2) assms(6) [of n] by auto
  then show ?thesis
    using starter assms(2-5)
    by (cases rule: starter_step_cases [OF starter(2)])
      (auto simp: world_simps start_enter_def start_insert_def start_announced_def starting_def
        reg_put_def split: if_splits)
qed (use assms(2-5) in \<open>auto simp: world_simps touch_def elim!: enqueue_check_cases enqueue_send_cases
      send_result_cases runner_step_cases reader_step_cases output_step_cases keeper_step_cases
      writer_step_cases closer_step_cases split: if_splits\<close>)

lemma aborted_mono:
  assumes "thread_step t inp w = Some w'" and "returned_inv w" and "aborted w n"
  shows "aborted w' n"
proof -
  have "w_returns w n \<noteq> None" using assms(3) by (auto simp: aborted_def split: option.splits)
  then have "w_returns w' n = w_returns w n"
    using returns_step [OF assms(1)] assms(2) by (simp add: returned_inv_def)
  then show ?thesis using assms(3) by (simp add: aborted_def)
qed

lemma open_thread_step:
  assumes inv: "reg_inv w" "returned_inv w" and step: "thread_step t inp w = Some w'"
    and d: "deltas w w'" and old: "\<And>n. open_session w n \<Longrightarrow> (session_id w n, n) \<in> set (w_registry w)"
    and u: "unique_ids w" and o: "open_session w' n" and s: "w_heap w n = Some s"
  shows "(session_id w' n, n) \<in> set (w_registry w')"
proof -
  obtain s' where s': "w_heap w' n = Some s'" "session_delta (w_cfg w) (w_now w) s s'"
    using d s by (auto simp: deltas_def)
  have id: "session_id w' n = si_id (ss_info s)" "session_id w n = si_id (ss_info s)"
    using s s' delta_keeps [OF s'(2)] by (auto simp: session_id_def)
  have new: "Registered \<in> set (ss_trace s')" "close_progress (ss_once s') < 5" "\<not> aborted w' n"
    using o s'(1) by (auto simp: open_session_def)
  show ?thesis
  proof (cases "Registered \<in> set (ss_trace s)")
    case False
    then show ?thesis
      using registered_new [OF step s s'(1) False new(1)] reg_invD(3) [OF inv(1)] id by simp
  next
    case True
    have same_once: "ss_once s' = ss_once s
        \<or> (\<exists>args k. w_threads w t = Closing n args k \<and> close_step t n args k w = Some w')"
      using once_step [OF step s s'(1)] reg_invD(3) [OF inv(1)] by blast
    have prog: "close_progress (ss_once s) \<le> close_progress (ss_once s')"
      using same_once
    proof (elim disjE exE conjE)
      fix args k assume "close_step t n args k w = Some w'"
      then show ?thesis
      proof (cases rule: close_step_cases)
        case (stage s0 st a)
        then show ?thesis using s s'(1) by (auto simp: next_stage_progress)
      qed (use s s' in \<open>auto simp: world_simps\<close>)
    qed simp
    have "open_session w n"
      using True prog new s aborted_mono [OF step inv(2)] by (auto simp: open_session_def)
    then have mem: "(si_id (ss_info s), n) \<in> set (w_registry w)" using old id by metis
    have other: "si_id (ss_info r) \<noteq> si_id (ss_info s)" if "w_heap w m = Some r" "m \<noteq> n" for m r
      using u that s unfolding unique_ids_def session_id_def by fastforce
    from step show ?thesis
    proof (cases rule: registry_step)
      case same
      then show ?thesis using mem id by simp
    next
      case (put m q r)
      then show ?thesis using mem id other [of m r] s by (cases "m = n") (auto simp: reg_put_def)
    next
      case (delete m r)
      have "m \<noteq> n"
      proof
        assume mn: "m = n"
        then have rs: "r = s" using delete(1) s by simp
        from delete(3) show False
        proof (elim disjE exE conjE)
          fix a args k assume x: "ss_once r = OnceRunning t C_Dereg a" "w_threads w t = Closing m args k"
          then have "close_step t n args k w = Some w'"
            using step mn by (simp add: thread_step_def)
          then show False
            by (cases rule: close_step_cases) (use x rs s s'(1) new(2) in auto)
        next
          fix e assume "w_returns w' m = Some (Err e)"
          then show False using new(3) mn by (simp add: aborted_def)
        qed
      qed
      then show ?thesis using other [OF delete(1)] delete(2) mem id by (auto simp: reg_delete_def)
    qed
  qed
qed

lemma other_action_same:
  assumes "exec_action a w = Some w'" and "\<forall>t inp. a \<noteq> Thread t inp"
  shows "w_heap w' = w_heap w \<and> w_returns w' = w_returns w \<and> w_registry w' = w_registry w"
  using assms by (cases a) (auto simp: world_simps split: if_splits)

lemma other_action_open:
  assumes "exec_action a w = Some w'" and "\<forall>t inp. a \<noteq> Thread t inp"
  shows "open_session w' n = open_session w n" "session_id w' n = session_id w n"
    "w_registry w' = w_registry w"
proof -
  note same = other_action_same [OF assms]
  then have "aborted w' = aborted w" by (simp add: aborted_def fun_eq_iff)
  then show "open_session w' n = open_session w n" "session_id w' n = session_id w n"
    "w_registry w' = w_registry w"
    using same by (simp_all add: open_session_def session_id_def split: option.split)
qed

lemma open_inv_step:
  assumes "open_inv w \<and> returned_inv w" and a: "exec_action a w = Some w'"
  shows "open_inv w' \<and> returned_inv w'"
proof -
  have inv: "reg_inv w" "returned_inv w" using assms(1) by (auto simp: open_inv_def)
  have r: "reg_inv w'" "returned_inv w'"
    using reg_inv_step [OF inv(1) a] returned_inv_step [OF inv(2) a] by auto
  have d: "deltas w w'" using base_inv_step [OF reg_invD(1) [OF inv(1)] a] by simp
  have "(session_id w' n, n) \<in> set (w_registry w')" if u: "unique_ids w'" and o: "open_session w' n" for n
  proof (cases "w_heap w n")
    case None
    obtain s' where s': "w_heap w' n = Some s'" "Registered \<in> set (ss_trace s')"
      using o by (auto simp: open_session_def split: option.splits)
    then show ?thesis
      using created_session [OF reg_invD(1) [OF inv(1)] a None s'(1)] by (auto simp: new_session_def)
  next
    case (Some s)
    have old: "\<And>n. open_session w n \<Longrightarrow> (session_id w n, n) \<in> set (w_registry w)"
      using assms(1) unique_ids_back [OF u d] by (simp add: open_inv_def)
    show ?thesis
    proof (cases a)
      case (Thread t inp)
      then show ?thesis
        using open_thread_step [OF inv _ d old unique_ids_back [OF u d] o Some] a by simp
    qed (use other_action_open [OF a] o old [of n] in simp_all)
  qed
  then show ?thesis using r by (simp add: open_inv_def)
qed

interpretation live: invariant_system system_initial system_step "\<lambda>w. open_inv w \<and> returned_inv w"
proof unfold_locales
  show "system_initial w \<Longrightarrow> open_inv w \<and> returned_inv w" for w
    using reg_inv_initial [of w] returned_inv_initial [of w]
    by (auto simp: open_inv_def system_initial_def initial_world_def open_session_def)
  show "open_inv w \<and> returned_inv w \<Longrightarrow> system_step w w' \<Longrightarrow> open_inv w' \<and> returned_inv w'" for w w'
    using open_inv_step by (blast elim: system_stepE)
qed

section \<open>Properties\<close>

text \<open>
  Property C2: the session limit holds under every interleaving of calls: the registry never
  holds more than the configured number of sessions, because the capacity is checked again under
  the lock; and as long as no two sessions got the same random identifier, the sessions that are
  open, registered and not yet deregistered, are no more than that either.
\<close>

theorem session_limit:
  assumes "reachable w"
  shows "int (registry_count w) \<le> rc_max_concurrent (w_cfg w) \<and>
    (unique_ids w \<longrightarrow> finite {n. open_session w n}
       \<and> int (card {n. open_session w n}) \<le> rc_max_concurrent (w_cfg w))"
proof -
  have inv: "open_inv w" using live.inv_reachable [OF assms] by simp
  have max: "int (length (w_registry w)) \<le> rc_max_concurrent (w_cfg w)"
    using reg_invD(8) [of w] inv by (simp add: open_inv_def)
  have "finite {n. open_session w n} \<and> int (card {n. open_session w n}) \<le> rc_max_concurrent (w_cfg w)"
    if "unique_ids w"
  proof -
    have sub: "{n. open_session w n} \<subseteq> snd ` set (w_registry w)"
      using inv that by (force simp: open_inv_def)
    then have "card {n. open_session w n} \<le> card (snd ` set (w_registry w))"
      by (intro card_mono) auto
    also have "\<dots> \<le> length (w_registry w)"
      using card_image_le [of "set (w_registry w)" snd] card_length [of "w_registry w"] by simp
    finally show ?thesis using max finite_subset [OF sub] by simp
  qed
  then show ?thesis using max by (simp add: registry_count_def)
qed

text \<open>Two starts against a limit of one, both past the first check before either inserts.\<close>

definition one_session :: registry_config where
  "one_session =
     \<lparr>rc_keepalive_interval = 0, rc_keepalive_timeout = 0, rc_max_concurrent = 1,
      rc_outbound_queue_depth = 0, rc_audit_sink = True\<rparr>"

definition demo_race :: "action list" where
  "demo_race =
     [CallStart 0 demo_request, CallStart 1 demo_request, Thread (Starter 0) InNone,
      Thread (Starter 1) InNone, Thread (Starter 0) (InOpen None ''random00''),
      Thread (Starter 1) (InOpen None ''random01''), Thread (Starter 0) (InConn None),
      Thread (Starter 1) (InConn None), Thread (Starter 1) InNone, Thread (Starter 0) InNone,
      Thread (Starter 0) InNone]"

theorem session_limit_witness:
  "\<exists>(w :: world). w_returns w 0 = Some (Err SessionLimitReached) \<and> w_registry w = [(''72616e646f6d3031'', 1)]
     \<and> int (registry_count w) \<le> 1"
proof -
  have "case run_actions demo_race (initial_world (Some one_session) 0) of None \<Rightarrow> False
      | Some w \<Rightarrow> w_returns w 0 = Some (Err SessionLimitReached)
          \<and> w_registry w = [(''72616e646f6d3031'', 1)] \<and> rc_max_concurrent (w_cfg w) = 1"
    by code_simp
  then obtain w where w: "run_actions demo_race (initial_world (Some one_session) 0) = Some w"
    "w_returns w 0 = Some (Err SessionLimitReached)" "w_registry w = [(''72616e646f6d3031'', 1)]"
    "rc_max_concurrent (w_cfg w) = 1"
    by (auto split: option.splits)
  from session_limit [OF run_actions_reachable [OF initial_reachable w(1)]] w(2-4)
  have "int (registry_count w) \<le> 1" by simp
  then show ?thesis using w(2,3) by blast
qed

text \<open>
  Property C14: the registry only lists sessions it should: every entry has its session's own
  identifier as its key, no key twice, and its session has been registered, is not closed, and
  has not been deregistered.
\<close>

theorem registry_lists_open_sessions:
  assumes "reachable w" and "(k, n) \<in> set (w_registry w)"
  shows "distinct (map fst (w_registry w)) \<and>
    (\<exists>s. w_heap w n = Some s \<and> si_id (ss_info s) = k \<and> ss_state s \<noteq> BrowserClosed
       \<and> Registered \<in> set (ss_trace s) \<and> Deregistered \<notin> set (ss_trace s))"
proof -
  have inv: "reg_inv w" using reg.inv_reachable [OF assms(1)] .
  obtain s where s: "w_heap w n = Some s" "si_id (ss_info s) = k" "Registered \<in> set (ss_trace s)"
    "close_progress (ss_once s) < 5"
    using reg_invD(7) [OF inv assms(2)] by (auto simp: reg_entry_ok_def)
  have c: "close_inv (w_cfg w) s" by (rule closing.session_inv [OF assms(1) s(1)])
  have "Deregistered \<notin> set (close_events (ss_trace s))"
  proof (cases "once_args (ss_once s)")
    case None
    then show ?thesis using c by (simp add: close_inv_def)
  next
    case (Some a)
    then show ?thesis using c s(4) by (cases a) (auto simp: close_inv_def split: if_splits)
  qed
  then have "Deregistered \<notin> set (ss_trace s)" by (simp add: close_events_def)
  moreover have "ss_state s \<noteq> BrowserClosed" using c s(4) by (simp add: close_inv_def state_at_def)
  ultimately show ?thesis using s reg_invD(9) [OF inv] by blast
qed

theorem registry_lists_open_sessions_witness:
  "\<exists>(w :: world) s. w_registry w = [(''72616e646f6d3030'', 0)] \<and> w_heap w 0 = Some s \<and> ss_state s \<noteq> BrowserClosed"
proof -
  have "runs_to (demo_start 0 ''random00'') (\<lambda>w. w_registry w = [(''72616e646f6d3030'', 0)])" by code_simp
  then obtain w where w: "reachable w" "w_registry w = [(''72616e646f6d3030'', 0)]" by (rule runs_toE)
  from registry_lists_open_sessions [OF w(1), of "''72616e646f6d3030''" 0] w(2) show ?thesis by auto
qed

end
