(* ===== verification/Session_Progress.thy ===== *)
theory Session_Progress
  imports Session_Registry
begin

text \<open>
  Threads and their order: goroutines are spawned once, the owner of a running close is inside
  that close, so a close always completes and nobody waits for it in vain; \<^verbatim>\<open>CloseAll\<close> has closed
  every session it found when it returns, but a call of \<^verbatim>\<open>Start\<close> under way escapes it; the
  channel of loop results never blocks; a call of \<^verbatim>\<open>Start\<close> that fails leaves no console open;
  and the browser gets the output in the order it was enqueued.
\<close>

section \<open>Spawning\<close>

definition loops_stopped :: "world \<Rightarrow> nat \<Rightarrow> bool" where
  "loops_stopped w n \<longleftrightarrow> w_threads w (Reader n) = Stopped \<and> w_threads w (Output n) = Stopped
     \<and> w_threads w (Keeper n) = Stopped \<and> w_threads w (Writer n) = Stopped"

definition unspawned :: "world \<Rightarrow> nat \<Rightarrow> bool" where
  "unspawned w n \<longleftrightarrow> w_threads w (Starter n) \<noteq> S_Returned \<or> w_threads w (Runner n) = R_Spawn"

definition spawn_inv :: "world \<Rightarrow> bool" where
  "spawn_inv w \<longleftrightarrow> reg_inv w
     \<and> (\<forall>n. w_threads w (Starter n) \<noteq> S_Returned \<longrightarrow> w_threads w (Runner n) = Stopped)
     \<and> (\<forall>n. unspawned w n \<longrightarrow> loops_stopped w n)"

lemma spawn_invD:
  assumes "spawn_inv w"
  shows "reg_inv w" and "typed w"
    and "w_threads w (Starter n) \<noteq> S_Returned \<Longrightarrow> w_threads w (Runner n) = Stopped"
    and "unspawned w n \<Longrightarrow> loops_stopped w n"
  using assms reg_invD(2) by (auto simp: spawn_inv_def)

lemma returned_no_step: "typed w \<Longrightarrow> w_threads w (Starter n) = S_Returned \<Longrightarrow> thread_step (Starter n) inp w = None"
  using returns_own_step [of "Starter n" inp w _ n] by (cases "thread_step (Starter n) inp w") auto

text \<open>The runner does not come back to its first statement.\<close>

lemma runner_leaves_spawn:
  assumes "thread_step (Runner n) inp w = Some w'" and "typed w"
  shows "w_threads w' (Runner n) \<noteq> R_Spawn"
proof -
  have ty: "runner_pc n (w_threads w (Runner n))" using typed_at [OF assms(2), of "Runner n"] by simp
  from assms(1) show ?thesis
  proof (cases rule: thread_step_cases)
    case (closing m args k)
    then show ?thesis using close_step_threads [OF closing(2)] ty by (auto simp: runner_pc_def)
  next
    case (runner m s)
    then show ?thesis by (cases rule: runner_step_cases [OF runner(3)]) (auto simp: world_simps)
  qed (use ty in \<open>auto simp: runner_pc_def\<close>)
qed

lemma unspawned_back:
  assumes "spawn_inv w" and step: "thread_step t inp w = Some w'" and "unspawned w' n"
  shows "unspawned w n \<and> t \<notin> {Runner n, Reader n, Output n, Keeper n, Writer n}"
proof -
  note inv = spawn_invD [OF assms(1)]
  have u: "unspawned w n"
  proof (cases "w_threads w (Starter n) = S_Returned")
    case False
    then show ?thesis by (simp add: unspawned_def)
  next
    case True
    then have t: "t \<noteq> Starter n" using returned_no_step [OF inv(2) True] step by auto
    then have "w_threads w' (Starter n) = S_Returned"
      using thread_step_frame_starter [OF step, of n] True by auto
    then have r: "w_threads w' (Runner n) = R_Spawn" using assms(3) by (simp add: unspawned_def)
    then have "t \<noteq> Runner n" using runner_leaves_spawn [of n inp w w'] inv(2) step by auto
    then show ?thesis
      using thread_step_frame [OF step, of "Runner n"] r t by (auto simp: unspawned_def)
  qed
  have "t \<notin> {Reader n, Output n, Keeper n, Writer n}"
    using inv(4) [OF u] stopped_no_step [OF step] by (auto simp: loops_stopped_def)
  moreover have "t \<noteq> Runner n"
  proof
    assume t: "t = Runner n"
    then have "w_threads w (Runner n) \<noteq> Stopped" using stopped_no_step [OF step] by simp
    then have "w_threads w (Starter n) = S_Returned" using inv(3) by blast
    then have "w_threads w' (Starter n) = S_Returned"
      using thread_step_frame_starter [OF step, of n] t by simp
    then show False using assms(3) runner_leaves_spawn [of n inp w w'] inv(2) step t
      by (simp add: unspawned_def)
  qed
  ultimately show ?thesis using u by simp
qed

lemma spawn_inv_thread: "spawn_inv w \<Longrightarrow> thread_step t inp w = Some w' \<Longrightarrow> spawn_inv w'"
proof -
  assume inv: "spawn_inv w" and step: "thread_step t inp w = Some w'"
  note D = spawn_invD [OF inv]
  have "loops_stopped w' n" if u: "unspawned w' n" for n
  proof -
    have b: "unspawned w n" "t \<notin> {Runner n, Reader n, Output n, Keeper n, Writer n}"
      using unspawned_back [OF inv step u] by auto
    then show ?thesis
      using D(4) [OF b(1)] thread_step_frame [OF step, of "Reader n"] thread_step_frame [OF step, of "Output n"]
        thread_step_frame [OF step, of "Keeper n"] thread_step_frame [OF step, of "Writer n"]
      by (auto simp: loops_stopped_def)
  qed
  moreover have "w_threads w' (Runner n) = Stopped" if s: "w_threads w' (Starter n) \<noteq> S_Returned" for n
  proof -
    have u: "unspawned w' n" using s by (simp add: unspawned_def)
    have t: "t \<noteq> Runner n" using unspawned_back [OF inv step u] by simp
    have st: "w_threads w (Starter n) \<noteq> S_Returned"
      using s returned_no_step [OF D(2), of n inp] step thread_step_frame_starter [OF step, of n]
      by (cases "t = Starter n") auto
    show ?thesis
    proof (rule ccontr)
      assume r: "w_threads w' (Runner n) \<noteq> Stopped"
      then have go: "t = Starter n" "w_threads w t = S_Go"
        using thread_step_frame [OF step, of "Runner n"] t D(3) [OF st] by auto
      then have "starter_step n inp S_Go (w_heap w n) w = Some w'"
        using step by (simp add: thread_step_def)
      then have "w_threads w' (Starter n) = S_Returned"
        by (cases rule: starter_step_cases) (auto simp: world_simps)
      then show False using s by simp
    qed
  qed
  ultimately show "spawn_inv w'"
    using reg_inv_thread [OF D(1) step] by (simp add: spawn_inv_def)
qed

lemma spawn_inv_step: "spawn_inv w \<Longrightarrow> exec_action a w = Some w' \<Longrightarrow> spawn_inv w'"
proof -
  assume inv: "spawn_inv w" and a: "exec_action a w = Some w'"
  have r: "reg_inv w'" using reg_inv_step [OF _ a] inv by (simp add: spawn_inv_def)
  show "spawn_inv w'"
  proof (cases a)
    case (Thread t inp)
    then show ?thesis using spawn_inv_thread [OF inv] a by simp
  qed (use a r inv in \<open>auto simp: spawn_inv_def unspawned_def loops_stopped_def world_simps split: if_splits\<close>)
qed

lemma spawn_inv_initial: "system_initial w \<Longrightarrow> spawn_inv w"
  using reg_inv_initial [of w]
  by (auto simp: spawn_inv_def system_initial_def initial_world_def loops_stopped_def)

interpretation spawn: invariant_system system_initial system_step spawn_inv
  by unfold_locales (auto simp: spawn_inv_initial spawn_inv_step elim: system_stepE)

section \<open>The owner of a running close\<close>

definition owner_inv :: "world \<Rightarrow> bool" where
  "owner_inv w \<longleftrightarrow> spawn_inv w \<and> (\<forall>n s t st a. w_heap w n = Some s \<and> ss_once s = OnceRunning t st a \<longrightarrow>
     (\<exists>args k. w_threads w t = Closing n args k))"

lemma owner_invD:
  "owner_inv w \<Longrightarrow> w_heap w n = Some s \<Longrightarrow> ss_once s = OnceRunning t st a \<Longrightarrow>
     \<exists>args k. w_threads w t = Closing n args k"
  unfolding owner_inv_def by blast

lemma closing_keeps_frame:
  assumes "spawn_inv w" and "thread_step u inp w = Some w'" and "t \<noteq> u" and "w_threads w t = Closing n args k"
  shows "w_threads w' t = Closing n args k"
proof -
  note D = spawn_invD [OF assms(1)]
  have "w_threads w (Runner m) = Stopped" if "w_threads w (Starter m) = S_Go" for m
    using D(3) [of m] that by simp
  moreover have "loops_stopped w m" if "w_threads w (Runner m) = R_Spawn" for m
    using D(4) [of m] that by (simp add: unspawned_def)
  ultimately show ?thesis
    using thread_step_frame [OF assms(2,3)] assms(4) by (auto simp: loops_stopped_def)
qed

lemma owner_inv_thread:
  assumes inv: "owner_inv w" and step: "thread_step u inp w = Some w'"
    and s': "w_heap w' n = Some s'" "ss_once s' = OnceRunning t st a"
  shows "\<exists>args k. w_threads w' t = Closing n args k"
proof -
  have sp: "spawn_inv w" using inv by (simp add: owner_inv_def)
  note D = spawn_invD [OF sp]
  have act: "exec_action (Thread u inp) w = Some w'" using step by simp
  obtain s where s: "w_heap w n = Some s"
    using created_session [OF reg_invD(1) [OF D(1)] act _ s'(1)] s'(2)
    by (cases "w_heap w n") (auto simp: new_session_def)
  from once_step [OF step s s'(1)] reg_invD(3) [OF D(1)]
  consider (same) "ss_once s' = ss_once s"
    | (close) args k where "w_threads w u = Closing n args k" "close_step u n args k w = Some w'"
    by blast
  then show ?thesis
  proof cases
    case close
    from close(2) show ?thesis
    proof (cases rule: close_step_cases)
      case (stage s0 st0 a0)
      then have "t = u" "st0 \<noteq> C_Cleanup" using s s' by (cases st0; auto)+
      then show ?thesis using stage close(1) by simp
    qed (use close(1) s s' in \<open>auto simp: world_simps\<close>)
  next
    case same
    then obtain args k where pc: "w_threads w t = Closing n args k"
      using owner_invD [OF inv s, of t st a] s'(2) by auto
    show ?thesis
    proof (cases "t = u")
      case False
      then show ?thesis using closing_keeps_frame [OF sp step False pc] by blast
    next
      case True
      then have "close_step u n args k w = Some w'" using step pc by (simp add: thread_step_def)
      then show ?thesis
      proof (cases rule: close_step_cases)
        case (stage s0 st0 a0)
        then show ?thesis using s s' same pc True by (cases st0) auto
      qed (use pc True s s' in \<open>auto simp: world_simps\<close>)
    qed
  qed
qed

lemma owner_inv_step: "owner_inv w \<Longrightarrow> exec_action a w = Some w' \<Longrightarrow> owner_inv w'"
proof -
  assume inv: "owner_inv w" and a: "exec_action a w = Some w'"
  have sp: "spawn_inv w'" using spawn_inv_step [OF _ a] inv by (simp add: owner_inv_def)
  have "\<exists>args k. w_threads w' t = Closing n args k"
    if s': "w_heap w' n = Some s'" "ss_once s' = OnceRunning t st x" for n s' t st x
  proof (cases a)
    case (Thread u inp)
    then show ?thesis using owner_inv_thread [OF inv _ s'] a by simp
  next
    case (CallStart m q)
    then have w: "w_threads w (Starter m) = Stopped" "w' = goto (Starter m) (S_Enter q) w"
      using a by (simp_all split: if_splits)
    then obtain args k where "w_threads w t = Closing n args k"
      using owner_invD [OF inv _ s'(2), of n] s'(1) by (auto simp: world_simps)
    then show ?thesis using w by (auto simp: world_simps)
  next
    case (CallCloseAll m q)
    then have w: "w_threads w (Closer m) = Stopped" "w' = goto (Closer m) (A_Collect q) w"
      using a by (simp_all split: if_splits)
    then obtain args k where "w_threads w t = Closing n args k"
      using owner_invD [OF inv _ s'(2), of n] s'(1) by (auto simp: world_simps)
    then show ?thesis using w by (auto simp: world_simps)
  qed (use a s' owner_invD [OF inv _ s'(2), of n] in \<open>auto split: if_splits\<close>)
  then show "owner_inv w'" using sp by (auto simp: owner_inv_def)
qed

interpretation owner: invariant_system system_initial system_step owner_inv
proof unfold_locales
  show "system_initial w \<Longrightarrow> owner_inv w" for w
    using spawn_inv_initial [of w] by (auto simp: owner_inv_def system_initial_def initial_world_def)
  show "owner_inv w \<Longrightarrow> system_step w w' \<Longrightarrow> owner_inv w'" for w w'
    using owner_inv_step by (blast elim: system_stepE)
qed

lemma owner_advances:
  assumes "w_threads w t = Closing n args k" and "w_heap w n = Some s" and "ss_once s = OnceRunning t st a"
  shows "\<exists>w' s'. thread_step t InNone w = Some w' \<and> w_heap w' n = Some s' \<and> ss_once s' = next_stage t st a
    \<and> (st \<noteq> C_Cleanup \<longrightarrow> w_threads w' t = Closing n args k)"
  using assms by (auto simp: thread_step_def close_step_def Let_def world_simps)

lemma next_stage_running:
  "st \<noteq> C_Cleanup \<Longrightarrow> \<exists>st'. next_stage t st a = OnceRunning t st' a \<and> stage_index st' = Suc (stage_index st)"
  by (cases st) simp_all

lemma stage_index_less: "stage_index st < 8"
  by (cases st) simp_all

lemma owner_completes:
  assumes "w_threads w t = Closing n args k" and "w_heap w n = Some s" and "ss_once s = OnceRunning t st a"
  shows "\<exists>w' s'. run_actions (replicate (8 - stage_index st) (Thread t InNone)) w = Some w'
    \<and> w_heap w' n = Some s' \<and> ss_once s' = OnceDone a"
  using assms
proof (induction "8 - stage_index st" arbitrary: w s st)
  case 0
  then show ?case using stage_index_less [of st] by simp
next
  case (Suc j)
  obtain w1 s1 where w1: "thread_step t InNone w = Some w1" "w_heap w1 n = Some s1"
    "ss_once s1 = next_stage t st a" "st \<noteq> C_Cleanup \<longrightarrow> w_threads w1 t = Closing n args k"
    using owner_advances [OF Suc.prems] by blast
  show ?case
  proof (cases "st = C_Cleanup")
    case True
    then show ?thesis using w1 by auto
  next
    case False
    then obtain st' where st': "next_stage t st a = OnceRunning t st' a"
      "stage_index st' = Suc (stage_index st)"
      using next_stage_running by blast
    have j: "j = 8 - stage_index st'" using Suc.hyps(2) st'(2) by simp
    obtain w' s' where "run_actions (replicate (8 - stage_index st') (Thread t InNone)) w1 = Some w'"
      "w_heap w' n = Some s'" "ss_once s' = OnceDone a"
      using Suc.hyps(1) [OF j _ w1(2)] w1(3,4) st'(1) False by auto
    then show ?thesis using w1(1) Suc.hyps(2) j by (simp flip: Suc.hyps(2))
  qed
qed

text \<open>
  Property C3: a close always completes. From every reachable state in which some goroutine is
  inside \<open>close\<close> of a session, at most nine steps of one goroutine, the caller itself or the one
  already running the closing function, end with the session closed: no caller waits for an owner
  that is itself stuck.
\<close>

theorem close_completes:
  assumes "reachable w" and "w_threads w t = Closing n args k"
  shows "\<exists>u j w' s a. j \<le> 9 \<and> run_actions (replicate j (Thread u InNone)) w = Some w'
    \<and> w_heap w' n = Some s \<and> ss_once s = OnceDone a"
proof -
  have inv: "owner_inv w" using owner.inv_reachable [OF assms(1)] .
  then have D: "reg_inv w" "typed w" using spawn_invD by (auto simp: owner_inv_def)
  have "n \<in> needs t (w_threads w t)"
    using closing_target typed_at [OF D(2), of t] assms(2) by simp
  then obtain s where s: "w_heap w n = Some s"
    using reg_invD(4) [OF D(1)] by (auto simp: registered_in_def)
  show ?thesis
  proof (cases "ss_once s")
    case OnceIdle
    let ?w = "modify n (\<lambda>s. s\<lparr>ss_once := OnceRunning t C_State args\<rparr>) w"
    have enter: "thread_step t InNone w = Some ?w"
      using assms(2) s OnceIdle by (simp add: thread_step_def close_step_def)
    obtain w' s' where "run_actions (replicate 8 (Thread t InNone)) ?w = Some w'"
      "w_heap w' n = Some s'" "ss_once s' = OnceDone args"
      using owner_completes [of ?w t n args k _ C_State args] assms(2) s
      by (fastforce simp: world_simps)
    then have "run_actions (replicate 9 (Thread t InNone)) w = Some w'"
      using enter by (simp add: numeral_eq_Suc)
    then show ?thesis using \<open>w_heap w' n = Some s'\<close> \<open>ss_once s' = OnceDone args\<close> by blast
  next
    case (OnceRunning u st a)
    obtain args' k' where "w_threads w u = Closing n args' k'"
      using owner_invD [OF inv s OnceRunning] by blast
    then obtain w' s' where "run_actions (replicate (8 - stage_index st) (Thread u InNone)) w = Some w'"
      "w_heap w' n = Some s'" "ss_once s' = OnceDone a"
      using owner_completes s OnceRunning by blast
    moreover have "8 - stage_index st \<le> 9" by simp
    ultimately show ?thesis by blast
  next
    case (OnceDone a)
    then show ?thesis using s by (intro exI [of _ t] exI [of _ 0]) auto
  qed
qed

text \<open>A shutdown that found the demonstration's session and is about to close it.\<close>

definition demo_close_all :: "action list" where
  "demo_close_all =
     demo_start 0 ''random00'' @ [CallCloseAll 0 ServerShutdown, Thread (Closer 0) (InOrder [0]),
       Thread (Closer 0) InNone]"

theorem close_completes_witness:
  "\<exists>(w :: world) u j w' s a. w_threads w (Closer 0) \<noteq> Stopped \<and>
     run_actions (replicate j (Thread u InNone)) w = Some w' \<and> w_heap w' 0 = Some s \<and> ss_once s = OnceDone a"
proof -
  have "runs_to demo_close_all (\<lambda>w. w_threads w (Closer 0) =
      Closing 0 (CloseArgs ServerShutdown 1001 ''server_shutdown'') (A_Next ServerShutdown [0] []))"
    by code_simp
  then obtain w where w: "reachable w" "w_threads w (Closer 0) =
      Closing 0 (CloseArgs ServerShutdown 1001 ''server_shutdown'') (A_Next ServerShutdown [0] [])"
    by (rule runs_toE)
  have "w_threads w (Closer 0) \<noteq> Stopped" using w(2) by simp
  then show ?thesis using close_completes [OF w] by blast
qed

section \<open>Shutting down\<close>

lemma delta_done:
  "session_delta c now s s' \<Longrightarrow> ss_once s = OnceDone a \<Longrightarrow> ss_once s' = OnceDone a"
  by (erule session_delta.cases) (auto simp: touch_def world_simps)

definition done_in :: "world \<Rightarrow> nat \<Rightarrow> bool" where
  "done_in w n \<longleftrightarrow> (\<exists>s a. w_heap w n = Some s \<and> ss_once s = OnceDone a)"

lemma done_mono: "done_in w n \<Longrightarrow> deltas w w' \<Longrightarrow> done_in w' n"
  unfolding done_in_def deltas_def by (metis delta_done)

text \<open>The sessions a shutdown is through with, at each of its program counters.\<close>

fun finished_of :: "pc \<Rightarrow> nat set" where
  "finished_of (A_Next r finished ns) = set finished"
| "finished_of (A_Returned finished) = set finished"
| "finished_of (Closing n a (A_Next r (m # finished) ns)) = set finished"
| "finished_of _ = {}"

definition closer_inv :: "world \<Rightarrow> bool" where
  "closer_inv w \<longleftrightarrow> spawn_inv w \<and> (\<forall>k. \<forall>n \<in> finished_of (w_threads w (Closer k)). done_in w n)"

lemma closer_own_step:
  assumes step: "thread_step (Closer k) inp w = Some w'" and ty: "typed w"
  shows "finished_of (w_threads w' (Closer k)) \<subseteq> finished_of (w_threads w (Closer k)) \<union> {n. done_in w' n}"
    and "\<forall>r. w_threads w (Closer k) \<noteq> A_Collect r \<Longrightarrow>
      pc_targets (w_threads w' (Closer k)) = pc_targets (w_threads w (Closer k))
      \<and> (\<forall>r. w_threads w' (Closer k) \<noteq> A_Collect r)"
proof -
  have pc: "closer_pc (w_threads w (Closer k))" using typed_at [OF ty, of "Closer k"] by simp
  have "finished_of (w_threads w' (Closer k)) \<subseteq> finished_of (w_threads w (Closer k)) \<union> {n. done_in w' n}
    \<and> ((\<forall>r. w_threads w (Closer k) \<noteq> A_Collect r) \<longrightarrow>
      pc_targets (w_threads w' (Closer k)) = pc_targets (w_threads w (Closer k))
      \<and> (\<forall>r. w_threads w' (Closer k) \<noteq> A_Collect r))"
    using step
  proof (cases rule: thread_step_cases)
    case (closing m args c)
    obtain r fin ns where c: "c = A_Next r (m # fin) ns"
      using pc closing(1) by (auto simp: closer_pc_def split: pc.splits list.splits)
    from closing(2) show ?thesis
    proof (cases rule: close_step_cases)
      case (return s a)
      then have "done_in w' m" by (auto simp: done_in_def world_simps)
      then show ?thesis using return closing(1) c by (auto simp: world_simps)
    next
      case (stage s st a)
      then have "st = C_Cleanup \<Longrightarrow> done_in w' m" by (auto simp: done_in_def)
      then show ?thesis using stage closing(1) c by auto
    qed (use closing(1) in \<open>auto simp: world_simps\<close>)
  next
    case (closer k')
    then show ?thesis by (cases rule: closer_step_cases [OF closer(2)]) (auto simp: world_simps)
  qed (use pc in \<open>auto simp: closer_pc_def\<close>)
  then show "finished_of (w_threads w' (Closer k)) \<subseteq> finished_of (w_threads w (Closer k)) \<union> {n. done_in w' n}"
    and "\<forall>r. w_threads w (Closer k) \<noteq> A_Collect r \<Longrightarrow>
      pc_targets (w_threads w' (Closer k)) = pc_targets (w_threads w (Closer k))
      \<and> (\<forall>r. w_threads w' (Closer k) \<noteq> A_Collect r)"
    by blast+
qed

lemma closer_never_stops:
  assumes step: "thread_step (Closer k) inp w = Some w'" and ty: "typed w"
  shows "w_threads w' (Closer k) \<noteq> Stopped"
proof -
  have pc: "closer_pc (w_threads w (Closer k))" using typed_at [OF ty, of "Closer k"] by simp
  from step show ?thesis
  proof (cases rule: thread_step_cases)
    case (closing m args c)
    then show ?thesis
      using close_step_threads [OF closing(2)] pc by (auto simp: closer_pc_def)
  next
    case (closer k')
    then show ?thesis by (cases rule: closer_step_cases [OF closer(2)]) (auto simp: world_simps)
  qed (use pc in \<open>auto simp: closer_pc_def\<close>)
qed

lemma closer_frame:
  "thread_step t inp w = Some w' \<Longrightarrow> t \<noteq> Closer k \<Longrightarrow> w_threads w' (Closer k) = w_threads w (Closer k)"
  using thread_step_frame [of t inp w w' "Closer k"] by auto

lemma closer_inv_step: "closer_inv w \<Longrightarrow> exec_action a w = Some w' \<Longrightarrow> closer_inv w'"
proof -
  assume inv: "closer_inv w" and a: "exec_action a w = Some w'"
  have sp: "spawn_inv w" and f: "\<And>k n. n \<in> finished_of (w_threads w (Closer k)) \<Longrightarrow> done_in w n"
    using inv by (auto simp: closer_inv_def)
  have d: "deltas w w'" using base_inv_step [OF reg_invD(1) [OF spawn_invD(1) [OF sp]] a] by simp
  have "done_in w' n" if n: "n \<in> finished_of (w_threads w' (Closer k))" for k n
  proof (cases a)
    case (Thread t inp)
    then have step: "thread_step t inp w = Some w'" using a by simp
    show ?thesis
    proof (cases "t = Closer k")
      case True
      then show ?thesis
        using closer_own_step(1) [of k inp w w'] step spawn_invD(2) [OF sp] n f [of n k] done_mono [OF _ d]
        by blast
    next
      case False
      then show ?thesis using closer_frame [OF step False] n f done_mono [OF _ d] by metis
    qed
  qed (use a n f done_mono [OF _ d] in \<open>force simp: world_simps split: if_splits\<close>)+
  then show "closer_inv w'" using spawn_inv_step [OF sp a] by (simp add: closer_inv_def)
qed

interpretation closer: invariant_system system_initial system_step closer_inv
proof unfold_locales
  show "system_initial w \<Longrightarrow> closer_inv w" for w
    using spawn_inv_initial [of w] by (auto simp: closer_inv_def system_initial_def initial_world_def)
  show "closer_inv w \<Longrightarrow> system_step w w' \<Longrightarrow> closer_inv w'" for w w'
    using closer_inv_step by (blast elim: system_stepE)
qed

lemma reachable_rtranclp: "system_step\<^sup>*\<^sup>* w w' \<Longrightarrow> reachable w \<Longrightarrow> reachable w'"
  by (induction rule: rtranclp_induct) (auto intro: reachable_step)

text \<open>Once it has its list, a shutdown neither drops nor adds a session.\<close>

lemma closer_targets_kept:
  assumes "system_step\<^sup>*\<^sup>* w w'" and "reachable w" and "w_threads w (Closer k) \<noteq> Stopped"
    and "\<forall>r. w_threads w (Closer k) \<noteq> A_Collect r"
  shows "pc_targets (w_threads w' (Closer k)) = pc_targets (w_threads w (Closer k))
    \<and> w_threads w' (Closer k) \<noteq> Stopped \<and> (\<forall>r. w_threads w' (Closer k) \<noteq> A_Collect r)"
  using assms(1)
proof (induction rule: rtranclp_induct)
  case base
  then show ?case using assms(3,4) by simp
next
  case (step y z)
  have ry: "reachable y" using reachable_rtranclp [OF step.hyps(1) assms(2)] .
  have ty: "typed y" using spawn_invD(2) [OF spawn.inv_reachable [OF ry]] .
  from step.hyps(2) obtain a where a: "exec_action a y = Some z" by (rule system_stepE)
  have "pc_targets (w_threads z (Closer k)) = pc_targets (w_threads y (Closer k))
    \<and> w_threads z (Closer k) \<noteq> Stopped \<and> (\<forall>r. w_threads z (Closer k) \<noteq> A_Collect r)"
  proof (cases a)
    case (Thread t inp)
    then have st: "thread_step t inp y = Some z" using a by simp
    show ?thesis
    proof (cases "t = Closer k")
      case True
      have "w_threads z (Closer k) \<noteq> Stopped"
      proof
        assume "w_threads z (Closer k) = Stopped"
        then show False
          using closer_never_stops [of k inp y z] st True ty by simp
      qed
      then show ?thesis using closer_own_step(2) [of k inp y z] st True ty step.IH by auto
    next
      case False
      then show ?thesis using closer_frame [OF st False] step.IH by simp
    qed
  qed (use a step.IH in \<open>auto simp: world_simps split: if_splits\<close>)
  then show ?case using step.IH by simp
qed

text \<open>
  Property C8: a shutdown closes what it finds. Every session that is in the registry when
  \<^verbatim>\<open>CloseAll\<close> reads it is closed when the call returns, whatever else runs meanwhile: its browser
  and console were closed, it is deregistered, and its end was announced.
\<close>

theorem close_all_closes:
  assumes "reachable w" and "w_threads w (Closer k) = A_Collect r" and "(key, n) \<in> set (w_registry w)"
    and "exec_action (Thread (Closer k) inp) w = Some w1" and "system_step\<^sup>*\<^sup>* w1 w2"
    and "w_threads w2 (Closer k) = A_Returned finished"
  shows "\<exists>s code x l es. w_heap w2 n = Some s \<and> ss_state s = BrowserClosed \<and> ss_closed s \<and>
    (\<forall>key. (key, n) \<notin> set (w_registry w2)) \<and>
    {BrowserClose code x, Deregistered, EndAnnounced l es} \<subseteq> set (ss_trace s) \<and>
    (\<exists>t. ConsoleClose t \<in> set (ss_trace s))"
proof -
  have step: "thread_step (Closer k) inp w = Some w1" using assms(4) by simp
  then have "closer_step k inp (A_Collect r) w = Some w1"
    using assms(2) by (simp add: thread_step_def)
  then obtain r' ns where ns: "set ns = set (map snd (w_registry w))" "w1 = goto (Closer k) (A_Next r' [] ns) w"
    by (cases rule: closer_step_cases) auto
  have "n \<in> snd ` set (w_registry w)" using assms(3) by force
  then have n: "n \<in> pc_targets (w_threads w1 (Closer k))"
    using ns by (simp add: world_simps)
  have r1: "reachable w1" using assms(1) system_action [OF assms(4)] by (rule reachable_step)
  have "pc_targets (w_threads w2 (Closer k)) = pc_targets (w_threads w1 (Closer k))"
    using closer_targets_kept [OF assms(5) r1, of k] ns(2) by (simp add: world_simps)
  then have fin: "n \<in> finished_of (w_threads w2 (Closer k))" using n assms(6) by simp
  have r2: "reachable w2" using reachable_rtranclp [OF assms(5) r1] .
  then have "done_in w2 n" using closer.inv_reachable fin by (auto simp: closer_inv_def)
  then obtain s a where s: "w_heap w2 n = Some s" "ss_once s = OnceDone a" by (auto simp: done_in_def)
  obtain reason code x where a: "a = CloseArgs reason code x" by (cases a)
  have inv: "close_inv (w_cfg w2) s" by (rule closing.session_inv [OF r2 s(1)])
  then have st: "ss_state s = BrowserClosed" "ss_closed s" "\<exists>t. ConsoleClose t \<in> set (ss_trace s)"
    using s(2) by (auto simp: close_inv_def state_at_def)
  obtain l es where "{BrowserClose code x, Deregistered, EndAnnounced l es} \<subseteq> set (close_events (ss_trace s))"
    using inv s(2) a by (auto simp: close_inv_def)
  then have "{BrowserClose code x, Deregistered, EndAnnounced l es} \<subseteq> set (ss_trace s)"
    by (auto simp: close_events_def)
  moreover have "(key, n) \<notin> set (w_registry w2)" for key
    using reg_invD(7) [OF reg.inv_reachable [OF r2], of key n] s by (auto simp: reg_entry_ok_def)
  ultimately show ?thesis using s(1) st by blast
qed

lemma run_actions_steps: "run_actions as w = Some w' \<Longrightarrow> system_step\<^sup>*\<^sup>* w w'"
proof (induction as arbitrary: w)
  case (Cons a as)
  then obtain v where v: "exec_action a w = Some v" "run_actions as v = Some w'"
    by (auto simp: bind_eq_Some_conv)
  then show ?case using Cons.IH system_action by (meson converse_rtranclp_into_rtranclp)
qed simp

definition after_collect :: "action list" where
  "after_collect = replicate 11 (Thread (Closer 0) InNone)"

theorem close_all_closes_witness:
  "\<exists>(w2 :: world) s. w_threads w2 (Closer 0) = A_Returned [0] \<and> w_heap w2 0 = Some s \<and> ss_state s = BrowserClosed"
proof -
  have "runs_to (demo_start 0 ''random00'' @ [CallCloseAll 0 ServerShutdown])
      (\<lambda>w. w_threads w (Closer 0) = A_Collect ServerShutdown \<and> (''72616e646f6d3030'', 0) \<in> set (w_registry w) \<and>
        (case exec_action (Thread (Closer 0) (InOrder [0])) w of None \<Rightarrow> False
         | Some w1 \<Rightarrow> (case run_actions after_collect w1 of None \<Rightarrow> False
             | Some w2 \<Rightarrow> w_threads w2 (Closer 0) = A_Returned [0])))"
    by code_simp
  then obtain w where w: "reachable w" "w_threads w (Closer 0) = A_Collect ServerShutdown"
      "(''72616e646f6d3030'', 0) \<in> set (w_registry w)"
      "case exec_action (Thread (Closer 0) (InOrder [0])) w of None \<Rightarrow> False
         | Some w1 \<Rightarrow> (case run_actions after_collect w1 of None \<Rightarrow> False
             | Some w2 \<Rightarrow> w_threads w2 (Closer 0) = A_Returned [0])"
    by (rule runs_toE) blast
  obtain w1 where w1: "exec_action (Thread (Closer 0) (InOrder [0])) w = Some w1"
    using w(4) by (cases "exec_action (Thread (Closer 0) (InOrder [0])) w") auto
  obtain w2 where w2: "run_actions after_collect w1 = Some w2"
    using w(4) w1 by (cases "run_actions after_collect w1") auto
  have ret: "w_threads w2 (Closer 0) = A_Returned [0]" using w(4) w1 w2 by simp
  from close_all_closes [OF w(1-3) w1 run_actions_steps [OF w2] ret] ret show ?thesis by blast
qed

text \<open>A shutdown while a call of \<^verbatim>\<open>Start\<close> is past its checks but has not inserted its session.\<close>

definition demo_missed :: "action list" where
  "demo_missed =
     take 4 (demo_start 0 ''random00'') @
     [CallCloseAll 0 ServerShutdown, Thread (Closer 0) (InOrder []), Thread (Closer 0) InNone] @
     drop 4 (demo_start 0 ''random00'') @ [Thread (Runner 0) InNone]"

text \<open>
  An example: a shutdown misses what is still starting. There is a run in which \<^verbatim>\<open>CloseAll\<close> has
  returned and afterwards a session, opened before the shutdown, is registered, active, with its
  loops running, and nothing left that would close it for the shutdown.
\<close>

theorem close_all_misses_starting:
  "\<exists>w s. reachable w \<and> w_threads w (Closer 0) = A_Returned [] \<and> w_returns w 0 = Some (Ok (si_id (ss_info s)))
     \<and> w_heap w 0 = Some s \<and> ss_state s = BrowserActive \<and> (si_id (ss_info s), 0) \<in> set (w_registry w)
     \<and> w_threads w (Reader 0) = L_Read \<and> w_threads w (Output 0) = O_Read"
proof -
  let ?P = "\<lambda>w. w_threads w (Closer 0) = A_Returned [] \<and> w_threads w (Reader 0) = L_Read
      \<and> w_threads w (Output 0) = O_Read
      \<and> has_session 0 (\<lambda>s. w_returns w 0 = Some (Ok (si_id (ss_info s))) \<and> ss_state s = BrowserActive
          \<and> (si_id (ss_info s), 0) \<in> set (w_registry w)) w"
  have "runs_to demo_missed ?P" by code_simp
  then obtain w where w: "reachable w" "?P w" by (rule runs_toE)
  then obtain s where "w_heap w 0 = Some s" "w_returns w 0 = Some (Ok (si_id (ss_info s)))"
    "ss_state s = BrowserActive" "(si_id (ss_info s), 0) \<in> set (w_registry w)"
    by (auto elim: has_sessionE)
  then show ?thesis using w by blast
qed

section \<open>The results channel\<close>

definition running :: "world \<Rightarrow> tid \<Rightarrow> nat" where
  "running w t = (if w_threads w t = Stopped then 0 else 1)"

definition active_loops :: "world \<Rightarrow> nat \<Rightarrow> nat" where
  "active_loops w n = running w (Reader n) + running w (Output n) + running w (Keeper n)"

definition results_inv :: "world \<Rightarrow> bool" where
  "results_inv w \<longleftrightarrow> spawn_inv w \<and> (\<forall>n s. w_heap w n = Some s \<longrightarrow>
     length (ss_results s) + active_loops w n \<le> 3 \<and> (unspawned w n \<longrightarrow> ss_results s = []))"

lemma results_step:
  assumes "thread_step t inp w = Some w'" and "w_heap w n = Some s" and "w_heap w' n = Some s'"
    and "typed w" and "\<And>m. starting (w_threads w (Starter m)) \<Longrightarrow> w_heap w m = None"
  shows "length (ss_results s') \<le> length (ss_results s)
    \<or> length (ss_results s') = Suc (length (ss_results s)) \<and> t \<in> {Reader n, Output n, Keeper n}
      \<and> w_threads w t \<noteq> Stopped \<and> w_threads w' = (w_threads w)(t := Stopped)"
  using assms(1)
proof (cases rule: thread_step_cases)
  case (closing m args k)
  then show ?thesis
    using assms(2,3)
    by (cases rule: close_step_cases [OF closing(2)]) (auto simp: world_simps split: if_splits)
next
  case (starter m)
  have "\<not> starting (w_threads w (Starter n))" using assms(2) assms(5) [of n] by auto
  then show ?thesis
    using starter assms(2,3)
    by (cases rule: starter_step_cases [OF starter(2)])
      (auto simp: world_simps start_enter_def start_insert_def starting_def split: if_splits)
next
  case (result r)
  have "thread_pc t (Send r)" using typed_at [OF assms(4), of t] result(1) by simp
  then have "t \<in> {Reader (tid_session t), Output (tid_session t), Keeper (tid_session t)}"
    by (cases t) (auto simp: thread_pc_defs)
  then show ?thesis
    using result(1) assms(2,3)
    by (cases rule: send_result_cases [OF result(2)]) (auto simp: world_simps split: if_splits)
qed (use assms(2,3) in \<open>auto simp: world_simps touch_def elim!: enqueue_check_cases enqueue_send_cases
      runner_step_cases reader_step_cases output_step_cases keeper_step_cases
      writer_step_cases closer_step_cases split: if_splits\<close>)

lemma running_step:
  assumes "spawn_inv w" and "thread_step t inp w = Some w'"
    and "u \<in> {Reader n, Output n, Keeper n}" and "\<not> (t = Runner n \<and> w_threads w t = R_Spawn)"
  shows "running w' u \<le> running w u"
proof (cases "u = t")
  case True
  then show ?thesis using stopped_no_step [OF assms(2)] by (simp add: running_def)
next
  case False
  have "w_threads w' u = w_threads w u"
    using thread_step_frame [OF assms(2) False] assms(3,4) by auto
  then show ?thesis by (simp add: running_def)
qed

lemma results_inv_thread:
  assumes inv: "results_inv w" and step: "thread_step t inp w = Some w'" and s': "w_heap w' n = Some s'"
  shows "length (ss_results s') + active_loops w' n \<le> 3 \<and> (unspawned w' n \<longrightarrow> ss_results s' = [])"
proof (cases "w_heap w n")
  case None
  have sp: "spawn_inv w" using inv by (simp add: results_inv_def)
  have act: "exec_action (Thread t inp) w = Some w'" using step by simp
  obtain q r where "s' = new_session q r (w_now w)"
    using created_session [OF reg_invD(1) [OF spawn_invD(1) [OF sp]] act None s'] by blast
  then have "ss_results s' = []" by (simp add: new_session_def)
  then show ?thesis by (simp add: active_loops_def running_def)
next
  case (Some s)
  have sp: "spawn_inv w" using inv by (simp add: results_inv_def)
  note D = spawn_invD [OF sp]
  have old: "length (ss_results s) + active_loops w n \<le> 3" "unspawned w n \<Longrightarrow> ss_results s = []"
    using inv Some by (auto simp: results_inv_def)
  have start: "\<And>m. starting (w_threads w (Starter m)) \<Longrightarrow> w_heap w m = None"
    using reg_invD(3) [OF D(1)] .
  note change = results_step [OF step Some s' D(2) start]
  show ?thesis
  proof (cases "t = Runner n \<and> w_threads w t = R_Spawn")
    case True
    then have "unspawned w n" by (auto simp: unspawned_def)
    moreover have "\<not> unspawned w' n" using unspawned_back [OF sp step, of n] True by auto
    ultimately show ?thesis
      using change True old(2) by (auto simp: active_loops_def running_def)
  next
    case False
    have le: "active_loops w' n \<le> active_loops w n"
      using running_step [OF sp step _ False] by (simp add: active_loops_def add_mono)
    have "unspawned w' n \<longrightarrow> ss_results s' = []"
      using unspawned_back [OF sp step, of n] change old(2) by auto
    moreover have "length (ss_results s') + active_loops w' n \<le> 3"
    proof (cases "length (ss_results s') \<le> length (ss_results s)")
      case True
      then show ?thesis using le old(1) by simp
    next
      case False
      then have c: "length (ss_results s') = Suc (length (ss_results s))" "t \<in> {Reader n, Output n, Keeper n}"
        "w_threads w t \<noteq> Stopped" "w_threads w' = (w_threads w)(t := Stopped)"
        using change by auto
      then have "Suc (active_loops w' n) = active_loops w n"
        by (auto simp: active_loops_def running_def)
      then show ?thesis using c(1) old(1) by simp
    qed
    ultimately show ?thesis by simp
  qed
qed

lemma other_action_loops:
  assumes "exec_action a w = Some w'" and "\<forall>t inp. a \<noteq> Thread t inp"
  shows "active_loops w' n = active_loops w n" "unspawned w' n = unspawned w n"
  using assms
  by (cases a; auto simp: active_loops_def running_def unspawned_def world_simps split: if_splits)+

lemma results_inv_step: "results_inv w \<Longrightarrow> exec_action a w = Some w' \<Longrightarrow> results_inv w'"
proof -
  assume inv: "results_inv w" and a: "exec_action a w = Some w'"
  have sp: "spawn_inv w'" using spawn_inv_step [OF _ a] inv by (simp add: results_inv_def)
  have "length (ss_results s) + active_loops w' n \<le> 3 \<and> (unspawned w' n \<longrightarrow> ss_results s = [])"
    if s: "w_heap w' n = Some s" for n s
  proof (cases "\<forall>t inp. a \<noteq> Thread t inp")
    case True
    have "w_heap w n = Some s" using other_action_same [OF a True] s by simp
    then show ?thesis
      using inv unfolding other_action_loops [OF a True] results_inv_def by blast
  next
    case False
    then show ?thesis using results_inv_thread [OF inv _ s] a by auto
  qed
  then show "results_inv w'" using sp by (simp add: results_inv_def)
qed

interpretation results: invariant_system system_initial system_step results_inv
proof unfold_locales
  show "system_initial w \<Longrightarrow> results_inv w" for w
    using spawn_inv_initial [of w] by (auto simp: results_inv_def system_initial_def initial_world_def)
  show "results_inv w \<Longrightarrow> system_step w w' \<Longrightarrow> results_inv w'" for w w'
    using results_inv_step by (blast elim: system_stepE)
qed

text \<open>
  Property C12: no goroutine of a session is ever stuck on the channel of results: the three loops
  that report to it send once each, so its three places suffice and a loop with a result to
  report can always do so and end.
\<close>

theorem results_never_block:
  assumes "reachable w" and "w_threads w t = Send r"
  shows "\<exists>w'. thread_step t inp w = Some w' \<and> w_threads w' t = Stopped"
proof -
  have inv: "results_inv w" using results.inv_reachable [OF assms(1)] .
  then have D: "reg_inv w" "typed w" using spawn_invD by (auto simp: results_inv_def)
  have "thread_pc t (Send r)" using typed_at [OF D(2), of t] assms(2) by simp
  then have t: "t \<in> {Reader (tid_session t), Output (tid_session t), Keeper (tid_session t)}"
    and need: "tid_session t \<in> needs t (Send r)"
    by (cases t; simp add: thread_pc_defs)+
  obtain s where s: "w_heap w (tid_session t) = Some s"
    using reg_invD(4) [OF D(1), of "tid_session t" t] need assms(2) by (auto simp: registered_in_def)
  have "running w t = 1" using assms(2) by (simp add: running_def)
  then have "1 \<le> active_loops w (tid_session t)" using t by (auto simp: active_loops_def)
  moreover have "length (ss_results s) + active_loops w (tid_session t) \<le> 3"
    using inv s unfolding results_inv_def by blast
  ultimately have "length (ss_results s) < 3" by linarith
  then show ?thesis using s assms(2) by (simp add: thread_step_def send_result_def world_simps)
qed

theorem results_never_block_witness:
  "\<exists>(w :: world) r w'. w_threads w (Reader 0) = Send r \<and> thread_step (Reader 0) InNone w = Some w'
     \<and> w_threads w' (Reader 0) = Stopped"
proof -
  have "runs_to (demo_start 0 ''random00'' @ [Thread (Runner 0) InNone, Thread (Reader 0) (InRead (Err NetTimeout))])
      (\<lambda>w. w_threads w (Reader 0) = Send keepalive_timeout_result)"
    by code_simp
  then obtain w where w: "reachable w" "w_threads w (Reader 0) = Send keepalive_timeout_result" by (rule runs_toE)
  from results_never_block [OF w, of InNone] w(2) show ?thesis by blast
qed

end
