(* ===== verification/Session_Delivery.thy ===== *)
theory Session_Delivery
  imports Session_Progress
begin

text \<open>
  What reaches the browser and what a call of \<^verbatim>\<open>Start\<close> leaves behind: the write loop writes
  the enqueued messages in order, none twice and none skipped; a successful start hands out a
  registered session, and a failed one has closed the console it opened.
\<close>

section \<open>The writes of the write loop\<close>

fun loop_writes :: "session_effect list \<Rightarrow> message list" where
  "loop_writes [] = []"
| "loop_writes (BrowserWrite (Writer n) m # es) = m # loop_writes es"
| "loop_writes (_ # es) = loop_writes es"

lemma loop_writes_append [simp]: "loop_writes (a @ b) = loop_writes a @ loop_writes b"
  by (induction a rule: loop_writes.induct) simp_all

lemma loop_writes_calls [simp]: "loop_writes (map ConsoleCall cs) = []"
  by (induction cs) simp_all

lemma close_stage_writes [simp]:
  "loop_writes (ss_trace (close_stage_session c now t st a s)) = loop_writes (ss_trace s)"
  by (cases a; cases st; simp add: emit_def end_announced_def)

definition in_hand :: "pc \<Rightarrow> message list" where
  "in_hand p = (case p of W_Write m \<Rightarrow> [m] | _ \<Rightarrow> [])"

definition delivery_inv :: "world \<Rightarrow> bool" where
  "delivery_inv w \<longleftrightarrow> spawn_inv w \<and> (\<forall>n s. w_heap w n = Some s \<longrightarrow>
     dequeued (ss_trace s) = loop_writes (ss_trace s) @ in_hand (w_threads w (Writer n)))"

lemma delivery_step:
  assumes sp: "spawn_inv w" and step: "thread_step t inp w = Some w'"
    and s: "w_heap w n = Some s" "w_heap w' n = Some s'"
    and old: "dequeued (ss_trace s) = loop_writes (ss_trace s) @ in_hand (w_threads w (Writer n))"
  shows "dequeued (ss_trace s') = loop_writes (ss_trace s') @ in_hand (w_threads w' (Writer n))"
proof (cases "t = Writer n")
  case True
  have ty: "writer_pc n (w_threads w (Writer n))" using typed_at [OF spawn_invD(2) [OF sp], of "Writer n"] by simp
  from step show ?thesis
  proof (cases rule: thread_step_cases)
    case (closing m args k)
    then show ?thesis
      using s old True ty
      by (cases rule: close_step_cases [OF closing(2)])
        (auto simp: world_simps in_hand_def writer_pc_def split: if_splits)
  next
    case (writer m s0)
    then show ?thesis
      using s old True
      by (cases rule: writer_step_cases [OF writer(3)]) (auto simp: world_simps in_hand_def)
  qed (use ty True in \<open>auto simp: writer_pc_def\<close>)
next
  case False
  have hand: "in_hand (w_threads w' (Writer n)) = in_hand (w_threads w (Writer n))"
  proof (cases "w_threads w' (Writer n) = w_threads w (Writer n)")
    case False
    then have "t = Runner n" "w_threads w t = R_Spawn" "w_threads w' (Writer n) = W_Select"
      using thread_step_frame [OF step, of "Writer n"] \<open>t \<noteq> Writer n\<close> by auto
    moreover from this have "w_threads w (Writer n) = Stopped"
      using spawn_invD(4) [OF sp, of n] by (auto simp: unspawned_def loops_stopped_def)
    ultimately show ?thesis by (simp add: in_hand_def)
  qed simp
  have start: "\<not> starting (w_threads w (Starter n))"
    using reg_invD(3) [OF spawn_invD(1) [OF sp], of n] s(1) by auto
  from step have "dequeued (ss_trace s') = dequeued (ss_trace s) \<and> loop_writes (ss_trace s') = loop_writes (ss_trace s)"
  proof (cases rule: thread_step_cases)
    case (closing m args k)
    then show ?thesis
      using s by (cases rule: close_step_cases [OF closing(2)]) (auto simp: world_simps split: if_splits)
  next
    case (starter m)
    then show ?thesis
      using s start
      by (cases rule: starter_step_cases [OF starter(2)])
        (auto simp: world_simps start_enter_def start_insert_def start_announced_def starting_def
          split: if_splits)
  next
    case (writer m s0)
    then have "m \<noteq> n" using False by simp
    then show ?thesis using own_steps_local(6) [OF writer(3), of n] s by simp
  qed (use s in \<open>auto simp: world_simps touch_def elim!: enqueue_check_cases enqueue_send_cases
        send_result_cases runner_step_cases reader_step_cases output_step_cases keeper_step_cases
        closer_step_cases split: if_splits\<close>)
  then show ?thesis using old hand by simp
qed

lemma other_action_writer:
  "exec_action a w = Some w' \<Longrightarrow> \<forall>t inp. a \<noteq> Thread t inp \<Longrightarrow> w_threads w' (Writer n) = w_threads w (Writer n)"
  by (cases a) (auto simp: world_simps split: if_splits)

lemma step_creates:
  assumes "spawn_inv w" and "thread_step t inp w = Some w'" and "w_heap w n = None" and "w_heap w' n = Some s'"
  shows "t = Starter n"
  using thread_step_heap [OF assms(2) reg_invD(3) [OF spawn_invD(1) [OF assms(1)]]] assms(3,4)
  by (auto simp: heap_ok_def creates_def)

lemma delivery_inv_step: "delivery_inv w \<Longrightarrow> exec_action a w = Some w' \<Longrightarrow> delivery_inv w'"
proof -
  assume inv: "delivery_inv w" and a: "exec_action a w = Some w'"
  have sp: "spawn_inv w" using inv by (simp add: delivery_inv_def)
  have "dequeued (ss_trace s') = loop_writes (ss_trace s') @ in_hand (w_threads w' (Writer n))"
    if s': "w_heap w' n = Some s'" for n s'
  proof (cases "\<forall>t inp. a \<noteq> Thread t inp")
    case True
    then show ?thesis
      using inv s' other_action_same [OF a True] unfolding other_action_writer [OF a True] delivery_inv_def
      by metis
  next
    case False
    then obtain t inp where t: "a = Thread t inp" by blast
    show ?thesis
    proof (cases "w_heap w n")
      case None
      then obtain q r where new: "s' = new_session q r (w_now w)" and st: "t = Starter n"
        using created_session [OF reg_invD(1) [OF spawn_invD(1) [OF sp]] a None s']
          step_creates [OF sp _ None s'] a t by auto
      have "w_threads w (Starter n) \<noteq> S_Returned"
        using returned_no_step [OF spawn_invD(2) [OF sp], of n inp] a t st by auto
      then have "w_threads w (Writer n) = Stopped"
        using spawn_invD(4) [OF sp, of n] by (simp add: unspawned_def loops_stopped_def)
      moreover have "w_threads w' (Writer n) = w_threads w (Writer n)"
        using thread_step_frame [of t inp w w' "Writer n"] a t st by auto
      ultimately show ?thesis using new by (simp add: new_session_def in_hand_def)
    next
      case (Some s)
      then show ?thesis
        using delivery_step [OF sp _ Some s'] inv a t by (auto simp: delivery_inv_def)
    qed
  qed
  then show "delivery_inv w'" using spawn_inv_step [OF sp a] by (simp add: delivery_inv_def)
qed

interpretation delivery: invariant_system system_initial system_step delivery_inv
proof unfold_locales
  show "system_initial w \<Longrightarrow> delivery_inv w" for w
    using spawn_inv_initial [of w] by (auto simp: delivery_inv_def system_initial_def initial_world_def)
  show "delivery_inv w \<Longrightarrow> system_step w w' \<Longrightarrow> delivery_inv w'" for w w'
    using delivery_inv_step by (blast elim: system_stepE)
qed

text \<open>
  Property C6: the browser gets what was enqueued, in order, nothing twice and nothing skipped:
  under every interleaving the writes of the write loop are a prefix of the enqueued messages,
  and what is missing is at most the one message being written and those waiting in the channel.
\<close>

theorem delivery_in_order:
  assumes "reachable w" and "w_heap w n = Some s"
  shows "\<exists>hand. enqueued (ss_trace s) = loop_writes (ss_trace s) @ hand @ ss_outbound s
    \<and> length hand \<le> 1 \<and> (hand \<noteq> [] \<longrightarrow> (\<exists>m. hand = [m] \<and> w_threads w (Writer n) = W_Write m))"
proof -
  have "delivery_inv w" using delivery.inv_reachable [OF assms(1)] .
  then have "dequeued (ss_trace s) = loop_writes (ss_trace s) @ in_hand (w_threads w (Writer n))"
    using assms(2) by (simp add: delivery_inv_def)
  moreover have "enqueued (ss_trace s) = dequeued (ss_trace s) @ ss_outbound s"
    using queue.session_inv [OF assms] by (simp add: queue_inv_def)
  ultimately show ?thesis
    by (intro exI [of _ "in_hand (w_threads w (Writer n))"]) (auto simp: in_hand_def split: pc.splits)
qed

theorem delivery_in_order_witness:
  "\<exists>(w :: world) s. w_heap w 0 = Some s \<and> loop_writes (ss_trace s) = [new_server_authorized]
     \<and> enqueued (ss_trace s) = [new_server_authorized] @ ss_outbound s"
proof -
  let ?as = "demo_start 0 ''random00'' @ [Thread (Runner 0) InNone, Thread (Writer 0) (InChoice CaseReady),
      Thread (Writer 0) (InConn None)]"
  let ?P = "\<lambda>w. w_threads w (Writer 0) = W_Select
      \<and> has_session 0 (\<lambda>s. loop_writes (ss_trace s) = [new_server_authorized]) w"
  have "runs_to ?as ?P" by code_simp
  then obtain w where w: "reachable w" "?P w" by (rule runs_toE)
  then obtain s where s: "w_heap w 0 = Some s" "loop_writes (ss_trace s) = [new_server_authorized]"
    by (auto elim: has_sessionE)
  from delivery_in_order [OF w(1) s(1)] w(2) s have "enqueued (ss_trace s) = [new_server_authorized] @ ss_outbound s"
    by auto
  then show ?thesis using s by blast
qed

section \<open>What a start leaves behind\<close>

definition console_closed :: "session \<Rightarrow> bool" where
  "console_closed s \<longleftrightarrow> (\<exists>t. ConsoleClose t \<in> set (ss_trace s))"

definition result_ok :: "world \<Rightarrow> nat \<Rightarrow> bool" where
  "result_ok w n =
     (case w_returns w n of
        None \<Rightarrow> True
      | Some (Inl e) \<Rightarrow> (case w_heap w n of None \<Rightarrow> True | Some s \<Rightarrow> console_closed s)
      | Some (Inr key) \<Rightarrow>
          (case w_heap w n of None \<Rightarrow> False
           | Some s \<Rightarrow> si_id (ss_info s) = key \<and> Registered \<in> set (ss_trace s)))"

definition abort_ok :: "world \<Rightarrow> nat \<Rightarrow> bool" where
  "abort_ok w n = (case w_threads w (Starter n) of
     S_AbortDelete e \<Rightarrow> (case w_heap w n of None \<Rightarrow> True | Some s \<Rightarrow> console_closed s) | _ \<Rightarrow> True)"

definition start_inv :: "world \<Rightarrow> bool" where
  "start_inv w \<longleftrightarrow> reg_inv w \<and> returned_inv w \<and> (\<forall>n. result_ok w n \<and> abort_ok w n)"

lemma console_closed_delta: "session_delta c now s s' \<Longrightarrow> console_closed s \<Longrightarrow> console_closed s'"
  using delta_keeps by (fastforce simp: console_closed_def)

lemma abort_ok_iff:
  "abort_ok w n \<longleftrightarrow> (\<forall>e s. w_threads w (Starter n) = S_AbortDelete e \<longrightarrow> w_heap w n = Some s \<longrightarrow> console_closed s)"
  by (auto simp: abort_ok_def split: pc.splits option.splits)

lemma result_ok_iff:
  "result_ok w n \<longleftrightarrow> (\<forall>e s. w_returns w n = Some (Err e) \<longrightarrow> w_heap w n = Some s \<longrightarrow> console_closed s) \<and>
     (\<forall>key. w_returns w n = Some (Ok key) \<longrightarrow>
        (\<exists>s. w_heap w n = Some s \<and> si_id (ss_info s) = key \<and> Registered \<in> set (ss_trace s)))"
  by (auto simp: result_ok_def split: option.splits sum.splits)

text \<open>A step of the starting call itself.\<close>

lemma start_own_step:
  assumes inv: "start_inv w" and step: "thread_step (Starter n) inp w = Some w'"
  shows "result_ok w' n \<and> abort_ok w' n"
proof -
  have D: "reg_inv w" "returned_inv w" "typed w" and old: "abort_ok w n"
    using inv reg_invD(2) by (auto simp: start_inv_def)
  have "w_threads w (Starter n) \<noteq> S_Returned" using returned_no_step [OF D(3)] step by fastforce
  then have none: "w_returns w n = None" using D(2) by (auto simp: returned_inv_def)
  have pc: "starter_pc n (w_threads w (Starter n))" using typed_at [OF D(3), of "Starter n"] by simp
  have reg: "post_insert (w_threads w (Starter n)) \<Longrightarrow> registered_in w n"
    using reg_invD(4) [OF D(1), of n "Starter n"] by simp
  have early: "starting (w_threads w (Starter n)) \<Longrightarrow> w_heap w n = None"
    using reg_invD(3) [OF D(1)] .
  from step show ?thesis
  proof (cases rule: thread_step_cases)
    case (closing m args k)
    then show ?thesis
      using pc none
      by (cases rule: close_step_cases [OF closing(2)])
        (auto simp: world_simps result_ok_iff abort_ok_iff starter_pc_def split: if_splits)
  next
    case (check m ok closed full)
    then show ?thesis
      using pc none
      by (cases rule: enqueue_check_cases [OF check(2)])
        (auto simp: world_simps result_ok_iff abort_ok_iff starter_pc_def split: if_splits)
  next
    case (enqueue m ok full)
    then show ?thesis
      using pc none
      by (cases rule: enqueue_send_cases [OF enqueue(2)])
        (auto simp: world_simps result_ok_iff abort_ok_iff starter_pc_def is_initial_iff split: if_splits)
  next
    case (starter m)
    from starter(2) show ?thesis
    proof (cases rule: starter_step_cases)
      case (go s)
      then show ?thesis
        using starter(1) reg none
        by (auto simp: world_simps result_ok_iff abort_ok_iff post_insert_def registered_in_def)
    next
      case (abort_delete e s)
      then show ?thesis
        using starter(1) old none by (auto simp: world_simps result_ok_iff abort_ok_iff)
    next
      case (openfail q e)
      then show ?thesis
        using starter(1) early none
        by (auto simp: world_simps result_ok_iff abort_ok_iff starting_def)
    next
      case (enter q)
      then show ?thesis
        using starter(1) early none
        by (auto simp: world_simps result_ok_iff abort_ok_iff starting_def start_enter_def split: if_splits)
    qed (use starter(1) none in \<open>auto simp: world_simps result_ok_iff abort_ok_iff console_closed_def
          start_insert_def split: if_splits\<close>)
  qed (use pc in \<open>auto simp: starter_pc_def\<close>)
qed

lemma returns_frame:
  assumes "thread_step t inp w = Some w'" and "t \<noteq> Starter n"
  shows "w_returns w' n = w_returns w n"
  using assms(1)
proof (cases rule: thread_step_cases)
  case (closing m args k)
  then show ?thesis by (cases rule: close_step_cases [OF closing(2)]) (auto simp: world_simps)
next
  case (starter m)
  then show ?thesis
    using assms(2)
    by (cases rule: starter_step_cases [OF starter(2)])
      (auto simp: world_simps start_enter_def start_insert_def split: if_splits)
qed (auto simp: world_simps elim!: enqueue_check_cases enqueue_send_cases
      send_result_cases runner_step_cases reader_step_cases output_step_cases keeper_step_cases
      writer_step_cases closer_step_cases)

lemma start_inv_step: "start_inv w \<Longrightarrow> exec_action a w = Some w' \<Longrightarrow> start_inv w'"
proof -
  assume inv: "start_inv w" and a: "exec_action a w = Some w'"
  have D: "reg_inv w" "returned_inv w" and old: "\<And>n. result_ok w n" "\<And>n. abort_ok w n"
    using inv by (auto simp: start_inv_def)
  have d: "deltas w w'" using base_inv_step [OF reg_invD(1) [OF D(1)] a] by simp
  have keep: "result_ok w' n \<and> abort_ok w' n"
    if r: "w_returns w' n = w_returns w n"
      and h: "w_heap w n = None \<Longrightarrow> w_heap w' n = None"
      and p: "\<And>e. w_threads w' (Starter n) = S_AbortDelete e \<Longrightarrow> w_threads w (Starter n) = S_AbortDelete e" for n
  proof (cases "w_heap w n")
    case None
    then show ?thesis using old [of n] r h p by (auto simp: result_ok_iff abort_ok_iff)
  next
    case (Some s)
    then obtain s' where s': "w_heap w' n = Some s'" "session_delta (w_cfg w) (w_now w) s s'"
      using d by (auto simp: deltas_def)
    then show ?thesis
      using old [of n] r p Some console_closed_delta [OF s'(2)] delta_keeps [OF s'(2)]
      by (fastforce simp: result_ok_iff abort_ok_iff)
  qed
  have "result_ok w' n \<and> abort_ok w' n" for n
  proof (cases "\<exists>t inp. a = Thread t inp")
    case True
    then obtain t inp where t: "thread_step t inp w = Some w'" using a by auto
    show ?thesis
    proof (cases "t = Starter n")
      case True
      then show ?thesis using start_own_step [OF inv] t by blast
    next
      case False
      have "w_heap w' n = None" if "w_heap w n = None"
        using thread_step_heap [OF t reg_invD(3) [OF D(1)]] that False by (auto simp: heap_ok_def creates_def)
      then show ?thesis
        using keep [of n] returns_frame [OF t False] thread_step_frame_starter [OF t, of n] False by auto
    qed
  next
    case False
    then have f: "\<forall>t inp. a \<noteq> Thread t inp" by blast
    have "w_threads w (Starter n) = S_AbortDelete e" if "w_threads w' (Starter n) = S_AbortDelete e" for e
      using that a f by (cases a) (auto simp: world_simps split: if_splits)
    then show ?thesis using keep [of n] other_action_same [OF a f] by auto
  qed
  then show "start_inv w'"
    using reg_inv_step [OF D(1) a] returned_inv_step [OF D(2) a] by (simp add: start_inv_def)
qed

interpretation start: invariant_system system_initial system_step start_inv
proof unfold_locales
  show "system_initial w \<Longrightarrow> start_inv w" for w
    using reg_inv_initial [of w] returned_inv_initial [of w]
    by (auto simp: start_inv_def system_initial_def initial_world_def result_ok_def abort_ok_def)
  show "start_inv w \<Longrightarrow> system_step w w' \<Longrightarrow> start_inv w'" for w w'
    using start_inv_step by (blast elim: system_stepE)
qed

text \<open>
  Property C7: a call of \<^verbatim>\<open>Start\<close> that returns a handle has put its session into the registry
  under the identifier it returns; one that returns an error has closed the console it opened,
  on every path, whether the keepalive could not be set, the capacity was gone at the second
  look, or a first message could not be enqueued.
\<close>

theorem start_result:
  assumes "reachable w" and "w_returns w n = Some r"
  shows "(case r of
      Inr key \<Rightarrow> \<exists>s. w_heap w n = Some s \<and> si_id (ss_info s) = key \<and> Registered \<in> set (ss_trace s)
    | Inl e \<Rightarrow> \<forall>s. w_heap w n = Some s \<longrightarrow> (\<exists>t. ConsoleClose t \<in> set (ss_trace s)))"
  using start.inv_reachable [OF assms(1)] assms(2)
  by (auto simp: start_inv_def result_ok_iff console_closed_def split: sum.split)

theorem start_result_witness:
  "\<exists>(w :: world) s t. w_returns w 0 = Some (Err (KeepaliveFailed NetTimeout)) \<and> w_heap w 0 = Some s
     \<and> ConsoleClose t \<in> set (ss_trace s)"
proof -
  let ?as = "take 3 (demo_start 0 ''random00'') @ [Thread (Starter 0) (InConn (Some NetTimeout)), Thread (Starter 0) InNone]"
  let ?P = "\<lambda>w. w_returns w 0 = Some (Err (KeepaliveFailed NetTimeout)) \<and> has_session 0 (\<lambda>s. True) w"
  have "runs_to ?as ?P" by code_simp
  then obtain w where w: "reachable w" "?P w" by (rule runs_toE)
  then obtain s where s: "w_heap w 0 = Some s" by (auto elim: has_sessionE)
  from start_result [OF w(1), of 0] w(2) s have "\<exists>t. ConsoleClose t \<in> set (ss_trace s)" by auto
  then show ?thesis using w(2) s by blast
qed

end
