(* ===== verification/Gateway_System.thy ===== *)
theory Gateway_System
  imports Http_Model Session_Delivery
begin

text \<open>
  The whole gateway: the registry's system of sessions of \<^verbatim>\<open>Session_System\<close>, driven by the
  handlers of \<^verbatim>\<open>Http_Model\<close>. Calls of \<^verbatim>\<open>Start\<close> come from handlers only, with their requests and
  the background context, which is never cancelled; \<^verbatim>\<open>CloseAll\<close> is called for a shutdown; the
  registry has the settings of the configuration. Every run of the gateway is a run of the
  system, so its theorems hold here, and more: no session without a grant the backend issued,
  which errors a start can have, and that the authorized message comes first.
\<close>

section \<open>The gateway as a system\<close>

text \<open>The requests of the handlers of a gateway with a validator and a bridge.\<close>

definition handler_request ::
  "config \<Rightarrow> (string \<Rightarrow> (grant_error, validation_result) result) \<Rightarrow> start_request \<Rightarrow> bool" where
  "handler_request cfg check q \<longleftrightarrow>
     (\<exists>h. he_validator h = Some check \<and> he_bridge h \<and> AskStart q \<in> set (handle_browser_socket cfg h))"

fun gateway_action ::
  "config \<Rightarrow> (string \<Rightarrow> (grant_error, validation_result) result) \<Rightarrow> action \<Rightarrow> bool" where
  "gateway_action cfg check (CallStart n q) = handler_request cfg check q"
| "gateway_action cfg check (CallCloseAll k r) = (r = ServerShutdown)"
| "gateway_action cfg check (CancelContext n) = False"
| "gateway_action cfg check a = True"

inductive gateway_step ::
  "config \<Rightarrow> (string \<Rightarrow> (grant_error, validation_result) result) \<Rightarrow> world \<Rightarrow> world \<Rightarrow> bool"
  for cfg check where
  gateway_exec: "gateway_action cfg check a \<Longrightarrow> exec_action a w = Some w' \<Longrightarrow> gateway_step cfg check w w'"

inductive_cases gateway_stepE: "gateway_step cfg check w w'"

definition gateway_initial :: "config \<Rightarrow> world \<Rightarrow> bool" where
  "gateway_initial cfg w \<longleftrightarrow>
     (\<exists>now. w = (initial_world None now)\<lparr>w_cfg := new_session_registry cfg\<rparr>)"

definition gateway_reachable ::
  "config \<Rightarrow> (string \<Rightarrow> (grant_error, validation_result) result) \<Rightarrow> world \<Rightarrow> bool" where
  "gateway_reachable cfg check = reachable_from (gateway_initial cfg) (gateway_step cfg check)"

lemma gateway_initial_system: "gateway_initial cfg w \<Longrightarrow> system_initial w"
  by (auto simp: gateway_initial_def system_initial_def initial_world_def new_session_registry_def)

lemma gateway_step_system: "gateway_step cfg check w w' \<Longrightarrow> system_step w w'"
  by (auto elim: gateway_stepE intro: system_action)

lemma gateway_is_system: "gateway_reachable cfg check w \<Longrightarrow> reachable w"
  unfolding gateway_reachable_def
  by (induction rule: reachable_from.induct)
    (auto intro: reachable_initial reachable_step gateway_initial_system gateway_step_system)

section \<open>Requests of a validator that keeps its contract\<close>

text \<open>What a handler's request carries.\<close>

definition granted ::
  "config \<Rightarrow> (string \<Rightarrow> (grant_error, validation_result) result) \<Rightarrow> validation_result \<Rightarrow> string \<Rightarrow> bool" where
  "granted cfg check r account \<longleftrightarrow>
     account = ssh_username (cfg_ssh cfg) \<and> (\<exists>token. trim_space token \<noteq> [] \<and> check token = Ok r)"

context grant_validator
begin

lemma handler_request_ok:
  assumes "handler_request cfg validate q"
  shows "st_browser q" and "st_bridge q" and "vr_ip_address (st_grant q) \<noteq> []"
    and "st_initial q = [new_server_authorized]" and "granted cfg validate (st_grant q) (st_account q)"
proof -
  obtain h where h: "he_validator h = Some validate" "he_bridge h"
    "AskStart q \<in> set (handle_browser_socket cfg h)"
    using assms by (auto simp: handler_request_def)
  from asked_by_handler [OF h(3)] h(1) obtain token r where r:
    "validate token = Ok r" "q = session_start_request cfg h r"
    by auto
  then show "st_browser q" "st_bridge q" "vr_ip_address (st_grant q) \<noteq> []"
    "st_initial q = [new_server_authorized]" "granted cfg validate (st_grant q) (st_account q)"
    using h(2) valid_ip_not_empty [OF r(1)] valid_token_not_blank [OF r(1)]
    by (auto simp: session_start_request_def granted_def)
qed

end

section \<open>The invariant\<close>

fun pc_request :: "pc \<Rightarrow> start_request option" where
  "pc_request (S_Enter q) = Some q"
| "pc_request (S_Open q) = Some q"
| "pc_request (S_Configure q) = Some q"
| "pc_request (S_Insert q) = Some q"
| "pc_request (S_Reject q) = Some q"
| "pc_request (S_Announce q) = Some q"
| "pc_request _ = None"

text \<open>What was enqueued, by how far the starting call is; \<open>idle\<close> says that no loop was started.\<close>

definition first_ok :: "pc \<Rightarrow> bool \<Rightarrow> message list \<Rightarrow> bool" where
  "first_ok p idle es =
     (case p of
        S_Initial ms \<Rightarrow> es = [] \<and> ms = [new_server_authorized] \<or> es = [new_server_authorized] \<and> ms = []
      | EnqCheck m ok closed full \<Rightarrow> es = [] \<and> m = new_server_authorized \<and> ok = S_Initial []
      | EnqSend m ok full \<Rightarrow> es = [] \<and> m = new_server_authorized \<and> ok = S_Initial []
      | S_Go \<Rightarrow> es = [new_server_authorized]
      | S_Returned \<Rightarrow> es = [] \<and> idle \<or> (\<exists>rest. es = new_server_authorized # rest)
      | Closing n a k \<Rightarrow> False
      | S_AbortClose e \<Rightarrow> es = [] \<and> e = EnqueueClosed
      | S_AbortDelete e \<Rightarrow> es = [] \<and> e = EnqueueClosed
      | _ \<Rightarrow> es = [])"

definition idle_session :: "world \<Rightarrow> nat \<Rightarrow> bool" where
  "idle_session w n \<longleftrightarrow> w_threads w (Runner n) = Stopped \<and> loops_stopped w n"

fun gateway_start_error :: "start_error \<Rightarrow> bool" where
  "gateway_start_error SessionLimitReached = True"
| "gateway_start_error (OpenBridgeFailed e) = True"
| "gateway_start_error (KeepaliveFailed e) = True"
| "gateway_start_error (InitialMessageFailed e) = (e = EnqueueClosed)"
| "gateway_start_error _ = False"

definition gate_at ::
  "config \<Rightarrow> (string \<Rightarrow> (grant_error, validation_result) result) \<Rightarrow> world \<Rightarrow> nat \<Rightarrow> bool" where
  "gate_at cfg check w n \<longleftrightarrow>
     (\<forall>q. pc_request (w_threads w (Starter n)) = Some q \<longrightarrow> handler_request cfg check q) \<and>
     (\<forall>s. w_heap w n = Some s \<longrightarrow>
        granted cfg check (si_grant (ss_info s)) (si_account (ss_info s)) \<and>
        first_ok (w_threads w (Starter n)) (idle_session w n) (enqueued (ss_trace s))) \<and>
     (\<forall>e. w_returns w n = Some (Err e) \<longrightarrow> gateway_start_error e)"

definition gate_inv ::
  "config \<Rightarrow> (string \<Rightarrow> (grant_error, validation_result) result) \<Rightarrow> world \<Rightarrow> bool" where
  "gate_inv cfg check w \<longleftrightarrow>
     spawn_inv w \<and> returned_inv w \<and> queue.everywhere w \<and> (\<forall>n. gate_at cfg check w n)"

lemma depth_positive: "base_inv w \<Longrightarrow> 0 < rc_outbound_queue_depth (w_cfg w)"
  by (auto simp: base_inv_def new_registry_config_def override_def default_outbound_queue_size_def
      split: option.split)

lemma gate_invD:
  assumes "gate_inv cfg check w"
  shows "spawn_inv w" and "typed w" and "base_inv w" and "returned_inv w"
    and "gate_at cfg check w n"
    and "w_heap w n = Some s \<Longrightarrow> enqueued (ss_trace s) = [] \<Longrightarrow> ss_outbound s = []"
  using assms spawn_invD reg_invD(1)
  by (auto simp: gate_inv_def queue.everywhere_def queue_inv_def)

lemma idle_before_return:
  "spawn_inv w \<Longrightarrow> w_threads w (Starter n) \<noteq> S_Returned \<Longrightarrow> idle_session w n"
  using spawn_invD(3,4) by (auto simp: idle_session_def unspawned_def)

lemma idle_upd:
  "idle_session w n \<Longrightarrow> w_threads w' = (w_threads w)(Starter n := p) \<Longrightarrow> idle_session w' n"
  by (simp add: idle_session_def loops_stopped_def)

lemma gate_atI:
  assumes "\<And>q. pc_request (w_threads w (Starter n)) = Some q \<Longrightarrow> handler_request cfg check q"
    and "\<And>s. w_heap w n = Some s \<Longrightarrow> granted cfg check (si_grant (ss_info s)) (si_account (ss_info s))"
    and "\<And>s. w_heap w n = Some s \<Longrightarrow>
      first_ok (w_threads w (Starter n)) (idle_session w n) (enqueued (ss_trace s))"
    and "\<And>e. w_returns w n = Some (Err e) \<Longrightarrow> gateway_start_error e"
  shows "gate_at cfg check w n"
  using assms by (simp add: gate_at_def)

context grant_validator
begin

text \<open>A step of the starting call.\<close>

lemma gate_own_step:
  assumes inv: "gate_inv cfg validate w" and step: "thread_step (Starter n) inp w = Some w'"
  shows "gate_at cfg validate w' n"
proof -
  note D = gate_invD [OF inv]
  have notret: "w_threads w (Starter n) \<noteq> S_Returned" using returned_no_step [OF D(2)] step by fastforce
  then have none: "w_returns w n = None" using D(4) by (auto simp: returned_inv_def)
  have pc: "starter_pc n (w_threads w (Starter n))" using typed_at [OF D(2), of "Starter n"] by simp
  have idle: "idle_session w n" using idle_before_return [OF D(1) notret] .
  have early: "starting (w_threads w (Starter n)) \<Longrightarrow> w_heap w n = None"
    using reg_invD(3) [OF spawn_invD(1) [OF D(1)]] .
  note at = D(5) [of n, unfolded gate_at_def]
  note facts = pc none idle at
  from step show ?thesis
  proof (cases rule: thread_step_cases)
    case (closing m args k)
    then have "m = n" using pc by (auto simp: starter_pc_def)
    then show ?thesis
      using closing at by (cases rule: close_step_cases [OF closing(2)]) (auto simp: first_ok_def)
  next
    case (check m ok closed full)
    then show ?thesis
      using facts idle_upd [OF idle]
      by (cases rule: enqueue_check_cases [OF check(2)])
        (auto simp: world_simps gate_at_def first_ok_def starter_pc_def)
  next
    case (enqueue m ok full)
    have room: "int (length (ss_outbound s)) < rc_outbound_queue_depth (w_cfg w)"
      if "w_heap w n = Some s" for s
      using depth_positive [OF D(3)] D(6) [OF that] at enqueue that by (simp add: first_ok_def)
    then show ?thesis
      using facts enqueue idle_upd [OF idle]
      by (cases rule: enqueue_send_cases [OF enqueue(2)])
        (auto simp: world_simps gate_at_def first_ok_def starter_pc_def)
  next
    case (starter m)
    from starter(2) show ?thesis
    proof (cases rule: starter_step_cases)
      case (enter q)
      then show ?thesis
        using starter(1) facts early handler_request_ok [of cfg q]
        by (auto simp: world_simps gate_at_def start_enter_def starting_def split: if_splits)
    next
      case (openfail q e)
      then show ?thesis
        using starter(1) facts early by (auto simp: world_simps gate_at_def starting_def)
    next
      case (opened q r)
      then show ?thesis
        using starter(1) facts early handler_request_ok [of cfg q]
        by (auto simp: world_simps gate_at_def starting_def new_session_def first_ok_def)
    next
      case (insert q s)
      then show ?thesis
        using starter(1) facts
        by (auto simp: world_simps gate_at_def start_insert_def first_ok_def split: if_splits)
    next
      case (announce q s)
      then show ?thesis
        using starter(1) facts handler_request_ok [of cfg q]
        by (auto simp: world_simps gate_at_def first_ok_def start_announced_def)
    next
      case (rejected q s)
      then show ?thesis
        using starter(1) facts idle_upd [OF idle]
        by (auto simp: world_simps gate_at_def first_ok_def)
    next
      case (failed e s)
      then show ?thesis
        using starter(1) facts idle_upd [OF idle]
        by (auto simp: world_simps gate_at_def first_ok_def)
    next
      case (abort_delete e s)
      then show ?thesis
        using starter(1) facts idle_upd [OF idle]
        by (auto simp: world_simps gate_at_def first_ok_def)
    next
      case (initial m ms s)
      then show ?thesis
        using starter(1) facts by (auto simp: world_simps gate_at_def first_ok_def)
    qed (use starter(1) facts in \<open>auto simp: world_simps gate_at_def first_ok_def\<close>)
  qed (use pc in \<open>auto simp: starter_pc_def\<close>)
qed

end

section \<open>The steps of the other threads\<close>

lemma enqueued_grows: "session_delta c now s s' \<Longrightarrow> \<exists>ms. enqueued (ss_trace s') = enqueued (ss_trace s) @ ms"
  by (erule session_delta.cases) (auto simp: touch_def emit_def)

lemma enqueuer: "thread_pc t (EnqSend m ok full) \<Longrightarrow> t = Starter (tid_session t) \<or> t = Output (tid_session t)"
  by (cases t) (auto simp: thread_pc_defs)

lemma enqueued_frame:
  assumes ty: "typed w" and step: "thread_step t inp w = Some w'" and "t \<noteq> Starter n" "t \<noteq> Output n"
    and s: "w_heap w n = Some s" "w_heap w' n = Some s'"
  shows "enqueued (ss_trace s') = enqueued (ss_trace s)"
  using step
proof (cases rule: thread_step_cases)
  case (closing m args k)
  then show ?thesis
    using s by (cases rule: close_step_cases [OF closing(2)]) (auto simp: world_simps split: if_splits)
next
  case (enqueue m ok full)
  then have "tid_session t \<noteq> n"
    using enqueuer [of t m ok full] typed_at [OF ty, of t] assms(3,4) by auto
  then show ?thesis
    using s by (cases rule: enqueue_send_cases [OF enqueue(2)]) (auto simp: world_simps)
next
  case (starter m)
  then show ?thesis
    using s assms(3)
    by (cases rule: starter_step_cases [OF starter(2)])
      (auto simp: world_simps start_enter_def start_insert_def split: if_splits)
next
  case (out m x)
  then show ?thesis
    using s assms(4) by (cases rule: output_step_cases [OF out(3)]) (auto simp: world_simps)
qed (use s in \<open>auto simp: world_simps touch_def elim!: enqueue_check_cases send_result_cases
      runner_step_cases reader_step_cases keeper_step_cases writer_step_cases closer_step_cases
      split: if_splits\<close>)

lemma idle_step:
  assumes "idle_session w n" and step: "thread_step t inp w = Some w'" and "t \<noteq> Starter n"
  shows "idle_session w' n \<and> t \<noteq> Output n"
proof -
  have t: "t \<notin> {Runner n, Reader n, Output n, Keeper n, Writer n}"
    using assms(1) stopped_no_step [OF step] by (auto simp: idle_session_def loops_stopped_def)
  have "w_threads w' u = w_threads w u" if "u \<in> {Runner n, Reader n, Output n, Keeper n, Writer n}" for u
    using thread_step_frame [OF step, of u] that t assms(3) by auto
  then show ?thesis using assms(1) t by (auto simp: idle_session_def loops_stopped_def)
qed

lemma first_ok_returned: "p \<noteq> S_Returned \<Longrightarrow> first_ok p a es = first_ok p b es"
  by (cases p) (simp_all add: first_ok_def)

lemma gate_other_step:
  assumes inv: "gate_inv cfg check w" and step: "thread_step t inp w = Some w'" and t: "t \<noteq> Starter n"
  shows "gate_at cfg check w' n"
proof (rule gate_atI)
  note D = gate_invD [OF inv]
  note at = D(5) [of n, unfolded gate_at_def]
  have pc: "w_threads w' (Starter n) = w_threads w (Starter n)"
    using thread_step_frame_starter [OF step] t by auto
  show "handler_request cfg check q" if "pc_request (w_threads w' (Starter n)) = Some q" for q
    using at that pc by simp
  show "gateway_start_error e" if "w_returns w' n = Some (Err e)" for e
    using at that returns_frame [OF step t] by simp
  fix s' assume s': "w_heap w' n = Some s'"
  then obtain s where s: "w_heap w n = Some s"
    using step_creates [OF D(1) step] t by (cases "w_heap w n") auto
  have d: "session_delta (w_cfg w) (w_now w) s s'"
    using base_inv_step [OF D(3), of "Thread t inp" w'] step s s' by (fastforce simp: deltas_def)
  show "granted cfg check (si_grant (ss_info s')) (si_account (ss_info s'))"
    using at s delta_keeps [OF d] by simp
  have old: "first_ok (w_threads w (Starter n)) (idle_session w n) (enqueued (ss_trace s))"
    using at s by blast
  show "first_ok (w_threads w' (Starter n)) (idle_session w' n) (enqueued (ss_trace s'))"
  proof (cases "idle_session w n")
    case True
    then have "idle_session w' n" "enqueued (ss_trace s') = enqueued (ss_trace s)"
      using idle_step [OF True step t] enqueued_frame [OF D(2) step t _ s s'] by auto
    then show ?thesis using old True pc by simp
  next
    case False
    then have "w_threads w (Starter n) = S_Returned" using idle_before_return [OF D(1)] by blast
    then show ?thesis using old False pc enqueued_grows [OF d] by (auto simp: first_ok_def)
  qed
qed

section \<open>Every reachable state\<close>

context grant_validator
begin

lemma gate_inv_step:
  assumes inv: "gate_inv cfg validate w" and "gateway_step cfg validate w w'"
  shows "gate_inv cfg validate w'"
proof -
  obtain a where ga: "gateway_action cfg validate a" and a: "exec_action a w = Some w'"
    using assms(2) by (auto elim: gateway_stepE)
  have "gate_at cfg validate w' n" for n
  proof (cases "\<exists>t inp. a = Thread t inp")
    case True
    then obtain t inp where "thread_step t inp w = Some w'" using a by auto
    then show ?thesis
      using gate_own_step [OF inv] gate_other_step [OF inv] by (cases "t = Starter n") auto
  next
    case False
    then have f: "\<forall>t inp. a \<noteq> Thread t inp" by blast
    note at = gate_invD(5) [OF inv, of n, unfolded gate_at_def]
    show ?thesis
    proof (cases "\<exists>q. a = CallStart n q")
      case True
      then obtain q where q: "a = CallStart n q" by blast
      then have w: "w_threads w (Starter n) = Stopped" "w' = goto (Starter n) (S_Enter q) w"
        using a by (auto split: if_splits)
      then have "w_heap w n = None"
        using reg_invD(3) [OF spawn_invD(1) [OF gate_invD(1) [OF inv]], of n] by (simp add: starting_def)
      then show ?thesis using w at ga q by (auto simp: gate_at_def world_simps)
    next
      case False
      then have "w_threads w' (Starter n) = w_threads w (Starter n)" "idle_session w' n = idle_session w n"
        using a f by (cases a; auto simp: world_simps idle_session_def loops_stopped_def split: if_splits)+
      then show ?thesis using at other_action_same [OF a f] by (simp add: gate_at_def)
    qed
  qed
  then show ?thesis
    using inv spawn_inv_step [OF _ a] returned_inv_step [OF _ a] queue.everywhere_step [OF _ a]
    by (simp add: gate_inv_def)
qed

lemma gate_inv_initial: "gateway_initial cfg w \<Longrightarrow> gate_inv cfg validate w"
  using gateway_initial_system [of cfg w] spawn_inv_initial [of w] returned_inv_initial [of w]
    queue.everywhere_initial [of w]
  by (auto simp: gate_inv_def gate_at_def gateway_initial_def initial_world_def)

end

interpretation gate: invariant_system "gateway_initial cfg" "gateway_step cfg (validate_token c b)"
    "gate_inv cfg (validate_token c b)" for cfg c b
  by unfold_locales (fact gv.gate_inv_initial, fact gv.gate_inv_step)

lemma classify_response_raw: "classify_response status body = Ok r \<Longrightarrow> vr_raw_response r = body"
  by (auto simp: classify_response_def Let_def split: option.splits if_splits)

lemma gateway_invariant: "gateway_reachable cfg (validate_token c b) w \<Longrightarrow> gate_inv cfg (validate_token c b) w"
  using gate.inv_reachable by (simp add: gateway_reachable_def)

text \<open>
  Property C1: no session without a grant. In every run of the gateway, whatever browsers, the
  backend and the SSH side do and however the threads interleave, every session carries exactly
  what a 200 answer of the backend to a token that is not blank said, its account is the
  configured one, and its address is not empty; and every call of \<^verbatim>\<open>Start\<close> that is still on its
  way to a shell has such a request.
\<close>

theorem no_session_without_grant:
  assumes "gateway_reachable cfg (validate_token c b) w" and "w_heap w n = Some s"
  shows "\<exists>token. trim_space token \<noteq> []
    \<and> bk_send b (validation_request c (trim_space token)) =
        Response 200 (vr_raw_response (si_grant (ss_info s)))
    \<and> validate_token c b token = Ok (si_grant (ss_info s))
    \<and> si_account (ss_info s) = ssh_username (cfg_ssh cfg)
    \<and> trim_space (vr_ip_address (si_grant (ss_info s))) \<noteq> []"
proof -
  have "gate_at cfg (validate_token c b) w n"
    using gate_invD(5) [OF gateway_invariant [OF assms(1)]] .
  then obtain token where t: "trim_space token \<noteq> []"
    "validate_token c b token = Ok (si_grant (ss_info s))"
    "si_account (ss_info s) = ssh_username (cfg_ssh cfg)"
    using assms(2) by (auto simp: gate_at_def granted_def)
  moreover obtain body where
    "bk_send b (validation_request c (trim_space token)) = Response 200 body"
    "classify_response 200 body = Ok (si_grant (ss_info s))"
    using validate_token_ok [OF t(2)] by blast
  moreover from this have "vr_raw_response (si_grant (ss_info s)) = body"
    using classify_response_raw by blast
  ultimately show ?thesis using gv.valid_ip [OF t(2)] by blast
qed

text \<open>A run of the gateway: one browser with a token, an accepting backend, and a start.\<close>

definition demo_check :: "string \<Rightarrow> (grant_error, validation_result) result" where
  "demo_check = validate_token (new_client ''http://b'' 1) sample_backend"

definition granted_request :: start_request where
  "granted_request = session_start_request demo_config (demo_env sample_backend) demo_grant"

definition gateway_start :: "nat \<Rightarrow> string \<Rightarrow> action list" where
  "gateway_start n random =
     [CallStart n granted_request, Thread (Starter n) InNone, Thread (Starter n) (InOpen None random),
      Thread (Starter n) (InConn None)] @ replicate 7 (Thread (Starter n) InNone)
     @ [Thread (Runner n) InNone, Thread (Writer n) (InChoice CaseReady), Thread (Writer n) (InConn None)]"

lemma gateway_run_reachable:
  "gateway_reachable cfg check w \<Longrightarrow> list_all (gateway_action cfg check) as \<Longrightarrow> run_actions as w = Some w'
     \<Longrightarrow> gateway_reachable cfg check w'"
proof (induction as arbitrary: w)
  case (Cons a as)
  then obtain v where v: "exec_action a w = Some v" "run_actions as v = Some w'"
    by (auto simp: bind_eq_Some_conv)
  have "gateway_step cfg check w v" using Cons.prems(2) v(1) by (auto intro: gateway_exec)
  then have "gateway_reachable cfg check v"
    using Cons.prems(1) by (auto simp: gateway_reachable_def intro: reachable_step)
  then show ?case using v(2) Cons by simp
qed simp

definition gateway_runs_to :: "action list \<Rightarrow> (world \<Rightarrow> bool) \<Rightarrow> bool" where
  "gateway_runs_to as P =
     (case run_actions as ((initial_world None 0)\<lparr>w_cfg := new_session_registry demo_config\<rparr>) of
        None \<Rightarrow> False | Some w \<Rightarrow> P w)"

lemma granted_request_ok: "handler_request demo_config demo_check granted_request"
  unfolding handler_request_def granted_request_def demo_check_def
  using demo_handler by (intro exI [of _ "demo_env sample_backend"]) (simp add: demo_env_def gorilla_env_def)

lemma gateway_runs_toE:
  assumes "gateway_runs_to as P" and "list_all (gateway_action demo_config demo_check) as"
  obtains w where "gateway_reachable demo_config demo_check w" "P w"
proof -
  let ?w = "(initial_world None 0)\<lparr>w_cfg := new_session_registry demo_config\<rparr>"
  have "gateway_reachable demo_config demo_check ?w"
    unfolding gateway_reachable_def by (rule reachable_initial) (auto simp: gateway_initial_def)
  then show ?thesis
    using assms that gateway_run_reachable [OF _ assms(2)]
    by (auto simp: gateway_runs_to_def split: option.splits)
qed

lemma gateway_start_allowed: "list_all (gateway_action demo_config demo_check) (gateway_start n random)"
  using granted_request_ok by (simp add: gateway_start_def numeral_eq_Suc)

lemma gateway_started:
  obtains w s where "gateway_reachable demo_config demo_check w" "w_heap w 0 = Some s"
    "loop_writes (ss_trace s) = [new_server_authorized]" "length (w_registry w) = 1"
proof -
  let ?P = "\<lambda>w. length (w_registry w) = 1
    \<and> has_session 0 (\<lambda>s. loop_writes (ss_trace s) = [new_server_authorized]) w"
  have "gateway_runs_to (gateway_start 0 ''random00'') ?P" by code_simp
  then obtain w where "gateway_reachable demo_config demo_check w" "?P w"
    by (rule gateway_runs_toE [OF _ gateway_start_allowed])
  then show ?thesis using that by (auto elim: has_sessionE)
qed

theorem no_session_without_grant_witness:
  "\<exists>(w :: world) s token. w_heap w 0 = Some s \<and> demo_check token = Ok (si_grant (ss_info s))
     \<and> trim_space token \<noteq> []"
proof -
  obtain w s where w: "gateway_reachable demo_config demo_check w" "w_heap w 0 = Some s"
    by (rule gateway_started)
  then show ?thesis
    using no_session_without_grant [of demo_config "new_client ''http://b'' 1" sample_backend w 0 s]
    unfolding demo_check_def by blast
qed

text \<open>
  Property C26: a start can fail in four ways only: the capacity is used up, the bridge fails, the
  keepalive cannot be set, or a shutdown closed the session before its first message was queued.
  The queue is never full for the first message, and the checks of the request never fail.
\<close>

theorem gateway_start_fails:
  assumes "gateway_reachable cfg (validate_token c b) w" and "w_returns w n = Some (Err e)"
  shows "e = SessionLimitReached \<or> (\<exists>t. e = OpenBridgeFailed t) \<or> (\<exists>t. e = KeepaliveFailed t)
    \<or> e = InitialMessageFailed EnqueueClosed"
  using gate_invD(5) [OF gateway_invariant [OF assms(1)], of n] assms(2)
  by (cases e) (auto simp: gate_at_def)

text \<open>
  Property C9: the browser is told it is authorized before anything else a session queues for it:
  in every run the first message that the write loop writes is the authorized message, and as
  long as that message is not queued none of the five goroutines of the session runs: neither the
  one that starts the loops nor the read, output, write and keepalive loops.
\<close>

theorem authorized_comes_first:
  assumes "gateway_reachable cfg (validate_token c b) w" and "w_heap w n = Some s"
  shows "(loop_writes (ss_trace s) = [] \<or> hd (loop_writes (ss_trace s)) = new_server_authorized) \<and>
    ((\<forall>t. t = Runner n \<or> t = Reader n \<or> t = Output n \<or> t = Writer n \<or> t = Keeper n \<longrightarrow>
        w_threads w t = Stopped)
     \<or> (\<exists>rest. enqueued (ss_trace s) = new_server_authorized # rest))"
proof -
  have D: "gate_inv cfg (validate_token c b) w" using gateway_invariant [OF assms(1)] .
  have "delivery_inv w" using delivery.inv_reachable [OF gateway_is_system [OF assms(1)]] .
  then have q: "enqueued (ss_trace s) =
      loop_writes (ss_trace s) @ in_hand (w_threads w (Writer n)) @ ss_outbound s"
    using queue.session_inv [OF gateway_is_system [OF assms(1)] assms(2)] assms(2)
    by (auto simp: delivery_inv_def queue_inv_def)
  have ok: "first_ok (w_threads w (Starter n)) (idle_session w n) (enqueued (ss_trace s))"
    using gate_invD(5) [OF D, of n] assms(2) by (simp add: gate_at_def)
  have "enqueued (ss_trace s) = [] \<or> (\<exists>rest. enqueued (ss_trace s) = new_server_authorized # rest)"
    using ok by (cases "w_threads w (Starter n)") (auto simp: first_ok_def)
  moreover have "idle_session w n" if "enqueued (ss_trace s) = []"
    using ok that idle_before_return [OF gate_invD(1) [OF D]]
    by (cases "w_threads w (Starter n) = S_Returned") (auto simp: first_ok_def)
  ultimately show ?thesis
    using q by (cases "loop_writes (ss_trace s)") (auto simp: idle_session_def loops_stopped_def)
qed

theorem authorized_comes_first_witness:
  "\<exists>(w :: world) s. w_heap w 0 = Some s \<and> loop_writes (ss_trace s) \<noteq> []
     \<and> hd (loop_writes (ss_trace s)) = new_server_authorized"
proof -
  obtain w s where w: "gateway_reachable demo_config demo_check w" "w_heap w 0 = Some s"
    "loop_writes (ss_trace s) = [new_server_authorized]"
    by (rule gateway_started)
  have "loop_writes (ss_trace s) = [] \<or> hd (loop_writes (ss_trace s)) = new_server_authorized"
    using authorized_comes_first [OF w(1) [unfolded demo_check_def] w(2)] by blast
  then show ?thesis using w by (intro exI [of _ w] exI [of _ s]) auto
qed

text \<open>The failing start of a bridge.\<close>

theorem gateway_start_fails_witness:
  "\<exists>(w :: world) e. w_returns w 0 = Some (Err e) \<and> (\<exists>t. e = OpenBridgeFailed t)"
proof -
  let ?as = "[CallStart 0 granted_request, Thread (Starter 0) InNone,
      Thread (Starter 0) (InOpen (Some ''dial'') [])]"
  have "gateway_runs_to ?as (\<lambda>w. w_returns w 0 = Some (Err (OpenBridgeFailed ''dial'')))" by code_simp
  then obtain w where w: "gateway_reachable demo_config demo_check w"
    "w_returns w 0 = Some (Err (OpenBridgeFailed ''dial''))"
    by (rule gateway_runs_toE) (use granted_request_ok in simp_all)
  then show ?thesis
    using gateway_start_fails [of demo_config "new_client ''http://b'' 1" sample_backend w 0]
    unfolding demo_check_def by blast
qed

lemma gateway_settings:
  "gateway_reachable cfg check w \<Longrightarrow> w_cfg w = new_session_registry cfg"
  unfolding gateway_reachable_def
proof (induction rule: reachable_from.induct)
  case (reachable_step w w')
  then show ?case using exec_action_cfg by (auto elim!: gateway_stepE)
qed (auto simp: gateway_initial_def)

text \<open>
  Property C25: a gateway keeps the limits of its configuration file. For a valid configuration
  there are never more sessions in the registry than \<^verbatim>\<open>GATEWAY_SESSION_MAX_CONCURRENT\<close> says, and
  never more messages waiting for a browser than \<^verbatim>\<open>GATEWAY_SESSION_OUTBOUND_QUEUE_DEPTH\<close> says.
\<close>

theorem configured_limits:
  assumes "config_valid parse_url cfg" and "gateway_reachable cfg check w"
  shows "int (registry_count w) \<le> session_max_concurrent (cfg_session cfg) \<and>
    (case w_heap w n of None \<Rightarrow> True
     | Some s \<Rightarrow> int (length (ss_outbound s)) \<le> session_outbound_queue_depth (cfg_session cfg))"
proof -
  have r: "reachable w" using gateway_is_system [OF assms(2)] .
  have "rc_max_concurrent (w_cfg w) = session_max_concurrent (cfg_session cfg)"
    "rc_outbound_queue_depth (w_cfg w) = session_outbound_queue_depth (cfg_session cfg)"
    using assms(1) gateway_settings [OF assms(2)]
    by (auto simp: new_session_registry_def new_registry_config_def override_def config_valid_def)
  then show ?thesis
    using reg_invD(8) [OF reg.inv_reachable [OF r]] queue.session_inv [OF r, of n]
    by (auto simp: registry_count_def queue_inv_def split: option.split)
qed

theorem configured_limits_witness:
  "\<exists>w :: world. registry_count w = 1 \<and> int (registry_count w) \<le> session_max_concurrent (cfg_session demo_config)"
proof -
  obtain w s where w: "gateway_reachable demo_config demo_check w" "length (w_registry w) = 1"
    by (rule gateway_started)
  have "config_valid (\<lambda>u. Some (''http'', ''backend'')) demo_config"
    by (simp add: config_valid_def demo_config_def default_config_def default_words) code_simp
  from configured_limits [OF this w(1), of 0] w(2) show ?thesis
    by (intro exI [of _ w]) (simp add: registry_count_def)
qed

lemma ssh_open_calls:
  assumes "ssh_open c env q = (calls, Ok rs)"
  shows "calls = [Dialed (ssh_target c (effective_request c q)), Established (sr_account (effective_request c q)),
      SessionCreated, StdinOpened, Setenv ''LANG'' ''C.UTF-8'', Setenv ''LC_ALL'' ''C.UTF-8'',
      PtyRequested (sr_term (effective_request c q)) (sr_rows (effective_request c q))
        (sr_columns (effective_request c q)), ShellStarted]"
  using assms by (auto simp: ssh_open_def stage_def Let_def split: option.splits sum.splits)

text \<open>
  Property C17: a shell is only opened where the backend said. Whatever request a handler passes to
  \<^verbatim>\<open>Start\<close>, the bridge made of the same configuration dials the address of a validated grant, on
  the configured port, as the configured user, and nothing else, and asks for a terminal of 24
  rows and 80 columns.
\<close>

theorem shell_on_granted_host:
  assumes "handler_request cfg (validate_token c b) q" and "new_ssh_client parse_url cfg = Ok client"
    and "ssh_open client env (bridge_request q) = (calls, Ok rs)"
  shows "(\<exists>token. trim_space token \<noteq> [] \<and> validate_token c b token = Ok (st_grant q)) \<and>
    [e. e \<leftarrow> calls, case e of Dialed a \<Rightarrow> True | _ \<Rightarrow> False] =
      [Dialed (join_host_port (vr_ip_address (st_grant q)) (show_int (ssh_port (cfg_ssh cfg))))] \<and>
    [e. e \<leftarrow> calls, case e of Established u \<Rightarrow> True | _ \<Rightarrow> False] = [Established (ssh_username (cfg_ssh cfg))] \<and>
    PtyRequested ''xterm-256color'' 24 80 \<in> set calls"
proof -
  have q: "granted cfg (validate_token c b) (st_grant q) (st_account q)"
    by (rule gv.handler_request_ok(5) [OF assms(1)])
  have client: "sc_port client = ssh_port (cfg_ssh cfg)" "config_valid parse_url cfg"
    using assms(2) by (auto simp: new_ssh_client_def and_then_Inr validate_Ok)
  then have "ssh_username (cfg_ssh cfg) \<noteq> []" by (auto simp: config_valid_def)
  then have "effective_request client (bridge_request q) = bridge_request q"
    using q by (simp add: effective_request_def bridge_request_def granted_def)
  then show ?thesis
    using ssh_open_calls [OF assms(3)] q client(1)
    by (auto simp: granted_def ssh_target_def bridge_request_def)
qed

theorem shell_on_granted_host_witness:
  "\<exists>calls. Dialed '' 10.0.0.8:22'' \<in> set calls \<and> (\<exists>token. demo_check token = Ok demo_grant)"
proof -
  let ?url = "\<lambda>u. Some (''http'', ''backend'')"
  let ?client = "\<lparr>sc_username = ''pi'', sc_port = 22, sc_connect_timeout = 5000000000,
    sc_private_key_path = ''secrets/gateway_ssh_ed25519'', sc_insecure_ignore_host_key = True\<rparr>"
  have "config_valid ?url demo_config"
    by (simp add: config_valid_def demo_config_def default_config_def default_words) code_simp
  then have c: "new_ssh_client ?url demo_config = Ok ?client"
    by (simp add: new_ssh_client_def validate_Ok [symmetric]) (simp add: demo_config_def default_config_def)
  obtain calls rs where o: "ssh_open ?client all_answers_good (bridge_request granted_request) = (calls, Ok rs)"
    by (simp add: ssh_open_def stage_def host_key_callback_def all_answers_good_def Let_def)
  have q: "st_grant granted_request = demo_grant"
    by (simp add: granted_request_def session_start_request_def)
  have "vr_ip_address demo_grant = '' 10.0.0.8''" "ssh_port (cfg_ssh demo_config) = 22"
    "join_host_port '' 10.0.0.8'' (show_int 22) = '' 10.0.0.8:22''"
    by code_simp+
  then have "[e. e \<leftarrow> calls, case e of Dialed a \<Rightarrow> True | _ \<Rightarrow> False] = [Dialed '' 10.0.0.8:22'']"
    and "\<exists>token. demo_check token = Ok demo_grant"
    using shell_on_granted_host [OF granted_request_ok [unfolded demo_check_def] c o] q
    by (auto simp: demo_check_def)
  then have "Dialed '' 10.0.0.8:22'' \<in> set [e. e \<leftarrow> calls, case e of Dialed a \<Rightarrow> True | _ \<Rightarrow> False]"
    by simp
  then show ?thesis using \<open>\<exists>token. _ token = _\<close> by auto
qed

end
