(* ===== verification/Spec2Isabelle.thy ===== *)
theory Spec2Isabelle
  imports Gateway_System
begin

text \<open>
  The gateway between a browser terminal and an SSH account of a Raspberry Pi: a browser opens a
  WebSocket, sends a token, the backend says which address the token is for, and the gateway
  connects the socket to a shell there. This development models the Go code under \<^verbatim>\<open>src/internal\<close>
  and \<^verbatim>\<open>src/cmd/gateway\<close>.

  \<^bold>\<open>Parts and how they interact.\<close> \<^verbatim>\<open>cmd/gateway\<close> loads the configuration, makes the grant client, the
  SSH client and the server of it. The server upgrades a request and runs one handler per
  socket; the handler reads the first message, asks the grant client about its token, and calls
  \<^verbatim>\<open>Start\<close> of the session registry with what it got. \<^verbatim>\<open>Start\<close> opens the shell, registers the
  session and starts five goroutines: the runner, the read loop (browser to shell), the output
  loop (shell to the outbound channel), the write loop (channel to browser) and the keepalive
  loop. Any of them, or \<^verbatim>\<open>CloseAll\<close> at a shutdown, may close the session.

  \<^bold>\<open>Theories.\<close>

  \<^item> \<^verbatim>\<open>Gateway_Prelude\<close>: fact collections, results as sums, reachability, the locale
    \<open>invariant_system\<close>. Every invariant below is an interpretation of it.
  \<^item> \<^verbatim>\<open>Go_Text\<close>, \<^verbatim>\<open>Go_Numeric\<close>, \<^verbatim>\<open>Go_Json\<close>: what the code uses of the standard library: UTF-8,
    \<^verbatim>\<open>strings\<close>, \<^verbatim>\<open>strconv\<close>, durations, \<^verbatim>\<open>encoding/json\<close>, with the lemma that the reader
    inverts the writer. Strings are lists of bytes; \<^verbatim>\<open>int\<close> is \<open>int\<close> with its 64 bit range
    checked where a value is parsed.
  \<^item> \<^verbatim>\<open>Config_Model\<close> (\<^verbatim>\<open>config/config.go\<close>): file, environment, resolution, validation. Shown:
    what is accepted, what overrides what, the defaults, the round trip of a file.
  \<^item> \<^verbatim>\<open>Protocol_Model\<close> (\<^verbatim>\<open>websocket/protocol.go\<close>, \<^verbatim>\<open>interfaces.go\<close>): the messages, their parser and
    printer. Shown: every outcome of the parser and the round trips.
  \<^item> \<^verbatim>\<open>Conn_Model\<close> (\<^verbatim>\<open>websocket/conn.go\<close>): each method as the calls it makes on gorilla and its
    result. Shown: deadlines, classes of errors, that a close always closes.
  \<^item> \<^verbatim>\<open>Grants_Model\<close> (\<^verbatim>\<open>grants/client.go\<close>): request, classification of the answers. The locale
    \<open>grant_validator\<close> is the contract the handler relies on, \<open>gv\<close> its interpretation.
  \<^item> \<^verbatim>\<open>Ssh_Model\<close> (\<^verbatim>\<open>sshbridge/client.go\<close>): opening stage by stage, the remote session over its pipe,
    with the locale \<open>console_reader\<close> for its reading side. Shown: nothing leaks, the output of the
    shell, both streams, is delivered in order until the close, closing once.
  \<^item> \<^verbatim>\<open>Audit_Model\<close> (\<^verbatim>\<open>audit\<close>): events and the sink.
  \<^item> \<^verbatim>\<open>Session_Model\<close> (\<^verbatim>\<open>session/manager.go\<close>, \<^verbatim>\<open>interfaces.go\<close>): the sequential rules of a session:
    reasons, results, one round of a loop, audit fields, settings, identifiers.
  \<^item> \<^verbatim>\<open>Session_System\<close> (\<^verbatim>\<open>session/manager.go\<close>): the registry and its sessions as a transition
    system. The \<open>world\<close> holds the registry's map, a heap of sessions, and a program counter per
    thread; a step of a thread is one statement that touches shared state: a lock section, a
    channel operation, a call of the browser or the console. What the outside answers is the
    \<open>input\<close> of the step. A run is any sequence of steps, so every interleaving is one.
  \<^item> \<^verbatim>\<open>Session_Spec\<close>: the type invariant of the program counters and the abstract specification of
    a session, \<open>session_delta\<close>, which every step refines.
  \<^item> \<^verbatim>\<open>Session_Examples\<close>: runs the kernel evaluates, for the witnesses.
  \<^item> \<^verbatim>\<open>Session_Closing\<close>: the locale \<open>session_invariant\<close> for invariants of one session, with the
    outbound queue and the closing function as interpretations; the life of a session as a
    machine of three states.
  \<^item> \<^verbatim>\<open>Session_Registry\<close>: the limit of sessions and what the registry lists.
  \<^item> \<^verbatim>\<open>Session_Progress\<close>: that a close completes, that \<^verbatim>\<open>CloseAll\<close> closes what it found, that no
    goroutine is stuck on the channel of results.
  \<^item> \<^verbatim>\<open>Session_Delivery\<close>: the order of what is written, and what a call of \<^verbatim>\<open>Start\<close> leaves behind.
  \<^item> \<^verbatim>\<open>Http_Model\<close> (\<^verbatim>\<open>httpserver/server.go\<close>, \<^verbatim>\<open>cmd/gateway/main.go\<close>): routes and replies, the handler
    of a socket as the list of what it does, the end of the server, the assembly of the program.
  \<^item> \<^verbatim>\<open>Gateway_System\<close>: the system of sessions driven by the handlers. Shown: no session without
    a grant of the backend, a shell only on the granted address, the configured limits, and
    that the authorized message comes first.

  \<^bold>\<open>Bounds and fuel.\<close> Only the JSON reader takes fuel, one more than twice the length of the text;
  \<open>json_parse_fuel\<close> shows that more never changes a result. Its nesting limit is the library's,
  10000. The other loops over input are structural or have a measure, and the endless loops of
  the goroutines are steps of the transition system.
  That a close terminates is proved as such: the owner of a close reaches its end in a number of
  its own steps that \<open>close_completes\<close> bounds. The channel of results holds three, the outbound
  channel the configured depth, a line of the configuration file less than 64 KiB, as in the code.

  \<^bold>\<open>Arguments.\<close> Code that is not part of the repository is an argument: \<^verbatim>\<open>url.Parse\<close>'s scheme and
  host, the file system and the environment, gorilla's connection (\<open>transport\<close>) and upgrade, the
  HTTP exchange with the backend (\<open>backend\<close>), the SSH library (\<open>ssh_env\<close>), random bytes, time.

  \<^bold>\<open>Simplifications.\<close> A run of the gateway has one \<open>backend\<close>: what it answers is a function of the
  request, so an answer that changes over time for the same token is not represented. The four
  go statements of a session's \<^verbatim>\<open>run\<close> are one step, which no other thread can tell from four. The
  calls that a close makes on the browser and the console return. A write of the shell into the
  pipe takes its place in the order of writes at once; that the SSH library copies standard output
  and standard error to the writers the session names is its documented behaviour.

  \<^bold>\<open>Not modelled.\<close> The log lines of the loops and of the start of the program (those of a session's
  start and end, of a rejection and of the handler are); the format of a log line; the write
  mutex of a connection, which only serialises its writers; \<^verbatim>\<open>IsUseOfClosedNetworkError\<close>, which
  nothing calls; \<^verbatim>\<open>internal/shutdown\<close>, one call of \<^verbatim>\<open>signal.NotifyContext\<close>, whose context is an
  input; the mux's own replies and redirects; the bounded time of a cleanup hook; packaging,
  deployment and the tests.
\<close>

end
